theory Spec2Isabelle
  imports Complex_Main "HOL-Library.Log_Nat"
begin

section \<open>Numeric cells\<close>

text \<open>
  The arrays of \<^verbatim>\<open>package_data.py\<close> hold IEEE floating-point numbers. A cell is
  modelled as not-a-number, one of the two infinities, or a finite rational. The special
  values follow IEEE 754: not-a-number is absorbing, \<open>inf - inf\<close>, \<open>0 * inf\<close>, \<open>0 / 0\<close>
  and \<open>inf / inf\<close> are not-a-number, and every comparison with not-a-number is false.
  The operations \<open>fadd\<close>, \<open>fmul\<close> and \<open>fdiv\<close> give the exact result on finite cells:
  the rounding of an arithmetic result is not modelled, so the theorems about the derived
  layers say which operation is applied to which cells and state no identity of exact
  arithmetic. The conversion to single precision that an assignment into a
  \<^verbatim>\<open>float32\<close> array performs is modelled, by \<open>to_float32\<close>. The sign of zero is not
  modelled.
\<close>

datatype fval = NaN | PInf | NInf | Fin rat

fun isnan :: "fval \<Rightarrow> bool" where
  "isnan NaN = True"
| "isnan _ = False"

fun isfin :: "fval \<Rightarrow> bool" where
  "isfin (Fin q) = True"
| "isfin _ = False"


fun fadd :: "fval \<Rightarrow> fval \<Rightarrow> fval" where
  "fadd NaN _ = NaN"
| "fadd _ NaN = NaN"
| "fadd PInf NInf = NaN"
| "fadd NInf PInf = NaN"
| "fadd PInf _ = PInf"
| "fadd NInf _ = NInf"
| "fadd _ PInf = PInf"
| "fadd _ NInf = NInf"
| "fadd (Fin a) (Fin b) = Fin (a + b)"


text \<open>The sign of a cell that is not not-a-number: \<open>-1\<close>, \<open>0\<close> or \<open>1\<close>.\<close>

fun fsgn :: "fval \<Rightarrow> int" where
  "fsgn NaN = 0"
| "fsgn PInf = 1"
| "fsgn NInf = - 1"
| "fsgn (Fin a) = (if a < 0 then - 1 else if a = 0 then 0 else 1)"

definition inf_of_sign :: "int \<Rightarrow> fval" where
  "inf_of_sign s = (if s = 0 then NaN else if s < 0 then NInf else PInf)"

fun fmul :: "fval \<Rightarrow> fval \<Rightarrow> fval" where
  "fmul NaN _ = NaN"
| "fmul _ NaN = NaN"
| "fmul (Fin a) (Fin b) = Fin (a * b)"
| "fmul a b = inf_of_sign (fsgn a * fsgn b)"

text \<open>
  Division as numpy performs it with the warnings silenced: a nonzero finite number
  over zero is an infinity, zero over zero is not-a-number, a finite number over an
  infinity is zero.
\<close>

fun fdiv :: "fval \<Rightarrow> fval \<Rightarrow> fval" where
  "fdiv NaN _ = NaN"
| "fdiv _ NaN = NaN"
| "fdiv (Fin a) (Fin b) = (if b = 0 then inf_of_sign (fsgn (Fin a)) else Fin (a / b))"
| "fdiv (Fin a) _ = Fin 0"
| "fdiv a (Fin b) = inf_of_sign (fsgn a * (if b < 0 then - 1 else 1))"
| "fdiv _ _ = NaN"

fun fle :: "fval \<Rightarrow> fval \<Rightarrow> bool" where
  "fle NaN _ = False"
| "fle _ NaN = False"
| "fle NInf _ = True"
| "fle _ PInf = True"
| "fle (Fin a) (Fin b) = (a \<le> b)"
| "fle _ _ = False"

definition feq :: "fval \<Rightarrow> fval \<Rightarrow> bool" where
  "feq a b = (\<not> isnan a \<and> a = b)"

definition fgt :: "fval \<Rightarrow> fval \<Rightarrow> bool" where
  "fgt a b = (fle b a \<and> \<not> feq a b)"

definition fge :: "fval \<Rightarrow> fval \<Rightarrow> bool" where
  "fge a b = fle b a"

text \<open>
  Conversion to IEEE 754 binary32, round to nearest, ties to even. \<open>float_exponent q\<close> is
  the exponent of the binade of \<open>q\<close>, that is \<open>\<lfloor>log\<^sub>2 \<bar>q\<bar>\<rfloor>\<close>; the spacing of the
  representable numbers there is \<open>2\<close> to the power of the exponent less 23, and the
  exponent of the subnormal numbers is fixed at \<open>-126\<close>. A result of magnitude \<open>2\<^sup>1\<^sup>2\<^sup>8\<close> or
  more is an infinity.
\<close>

definition pow2 :: "int \<Rightarrow> rat" where
  "pow2 e = (if 0 \<le> e then 2 ^ nat e else 1 / 2 ^ nat (- e))"

definition float_exponent :: "rat \<Rightarrow> int" where
  "float_exponent q =
     (case quotient_of \<bar>q\<bar> of (p, d) \<Rightarrow>
        let e = bitlen p - bitlen d in if pow2 e \<le> \<bar>q\<bar> then e else e - 1)"

definition round_half_even :: "rat \<Rightarrow> int" where
  "round_half_even x =
     (let f = \<lfloor>x\<rfloor>; d = x - of_int f in
      if d < 1 / 2 then f else if 1 / 2 < d then f + 1 else if even f then f else f + 1)"

definition round_float32 :: "rat \<Rightarrow> fval" where
  "round_float32 q =
     (if q = 0 then Fin 0
      else let ulp = pow2 (max (float_exponent q) (- 126) - 23);
               r = of_int (round_half_even (q / ulp)) * ulp
           in if pow2 128 \<le> r then PInf else if r \<le> - pow2 128 then NInf else Fin r)"

fun to_float32 :: "fval \<Rightarrow> fval" where
  "to_float32 (Fin q) = round_float32 q"
| "to_float32 x = x"

type_synonym matrix = "fval list list"

text \<open>The cells of an array as they are stored in a \<^verbatim>\<open>float32\<close> array.\<close>

definition as_float32 :: "matrix \<Rightarrow> matrix" where
  "as_float32 A = map (map to_float32) A"

text \<open>\<^verbatim>\<open>np.full((n, m), np.nan)\<close>\<close>

definition np_full_nan :: "nat \<Rightarrow> nat \<Rightarrow> matrix" where
  "np_full_nan n m = replicate n (replicate m NaN)"

section \<open>Errors and containers\<close>

datatype error = KeyError string | ValueError string | LoadError string

definition ebind :: "error + 'a \<Rightarrow> ('a \<Rightarrow> error + 'b) \<Rightarrow> error + 'b" where
  "ebind m f = (case m of Inl e \<Rightarrow> Inl e | Inr x \<Rightarrow> f x)"

definition lookup :: "(string \<rightharpoonup> 'a) \<Rightarrow> string \<Rightarrow> error + 'a" where
  "lookup d k = (case d k of None \<Rightarrow> Inl (KeyError k) | Some v \<Rightarrow> Inr v)"

text \<open>A cell of a metadata table: a label or a number.\<close>

datatype cell = S string | F fval

text \<open>
  An \<^verbatim>\<open>AnnData\<close> object. Its shape is (number of observation names, number of
  variable names); the primary matrix and every layer are lists of rows of that shape.
  An entry of \<open>obsm\<close> carries its column count with its rows. \<open>uns_programs\<close> is
  \<^verbatim>\<open>uns["programs"]\<close>, absent when the key is.
\<close>

record anndata =
  obs_names :: "string list"
  var_names :: "string list"
  X :: matrix
  layers :: "string \<rightharpoonup> matrix"
  obs :: "string \<rightharpoonup> cell list"
  var :: "string \<rightharpoonup> cell list"
  obsm :: "string \<rightharpoonup> nat \<times> matrix"
  uns_programs :: "(string \<rightharpoonup> string) option"

definition n_obs :: "anndata \<Rightarrow> nat" where
  "n_obs a = length (obs_names a)"

definition n_vars :: "anndata \<Rightarrow> nat" where
  "n_vars a = length (var_names a)"

definition shape :: "anndata \<Rightarrow> nat \<times> nat" where
  "shape a = (n_obs a, n_vars a)"

text \<open>
  \<^verbatim>\<open>FigureSingleCellData\<close> is not part of the sources at hand: the object is taken as
  given, with the results of its loaders as functions of the experiment key.
\<close>

record 'k figure_data =
  all_data :: anndata
  expts :: "'k list"
  decay_data :: "'k \<Rightarrow> error + anndata"
  denoised_data :: "'k \<Rightarrow> error + anndata"

section \<open>Array operations\<close>

text \<open>\<^verbatim>\<open>index.isin(values)\<close>: one flag per element of the index.\<close>

definition isin :: "string list \<Rightarrow> string list \<Rightarrow> bool list" where
  "isin names vals = map (\<lambda>n. n \<in> set vals) names"

definition count_true :: "bool list \<Rightarrow> nat" where
  "count_true msk = length (filter id msk)"

text \<open>
  numpy broadcasting of a two-dimensional value of shape \<open>(n, c)\<close> to the shape
  \<open>(k, m)\<close>: each axis must agree or have length one, a length-one axis is repeated.
  The value is an array of the shape it is given with, so it has a first row when \<open>n\<close> is
  one and each row has a first cell when \<open>c\<close> is one.
\<close>

definition np_broadcast_to :: "nat \<times> nat \<Rightarrow> nat \<times> nat \<Rightarrow> matrix \<Rightarrow> error + matrix" where
  "np_broadcast_to tgt src v =
     (case (tgt, src) of ((k, m), (n, c)) \<Rightarrow>
        if (n = k \<or> n = 1) \<and> (c = m \<or> c = 1)
        then Inr (map (\<lambda>row. if c = m then row else replicate m (hd row))
                      (if n = k then v else replicate k (hd v)))
        else Inl (ValueError ''shape mismatch''))"

text \<open>
  The rows of \<open>A\<close> flagged by the mask are replaced, in order, by the rows of the value;
  the other rows are kept.
\<close>

fun put_rows :: "bool list \<Rightarrow> matrix \<Rightarrow> matrix \<Rightarrow> matrix" where
  "put_rows (True # bs) (r # rs) (v # vs) = v # put_rows bs rs vs"
| "put_rows (False # bs) (r # rs) vs = r # put_rows bs rs vs"
| "put_rows _ rs _ = rs"

text \<open>
  \<^verbatim>\<open>A[msk, :] = v\<close> on a \<^verbatim>\<open>float32\<close> array \<open>A\<close> with \<open>m\<close> columns (the three layers
  that the loop writes are created as \<^verbatim>\<open>float32\<close>, lines 76 to 86): the value is
  broadcast to the selected rows and its cells are converted to single precision.
\<close>

definition mask_assign :: "bool list \<Rightarrow> nat \<Rightarrow> matrix \<Rightarrow> nat \<times> nat \<Rightarrow> matrix \<Rightarrow> error + matrix" where
  "mask_assign msk m A vshape v =
     ebind (np_broadcast_to (count_true msk, m) vshape v)
       (\<lambda>v'. Inr (put_rows msk A (as_float32 v')))"

text \<open>Selection of the flagged elements of a list (rows by a row mask, cells by a column mask).\<close>

fun select :: "bool list \<Rightarrow> 'a list \<Rightarrow> 'a list" where
  "select (b # bs) (x # xs) = (if b then x # select bs xs else select bs xs)"
| "select _ _ = []"

section \<open>The merge loop (lines 88 to 104)\<close>

definition set_layer :: "string \<Rightarrow> matrix \<Rightarrow> anndata \<Rightarrow> anndata" where
  "set_layer name v a = a\<lparr>layers := (layers a)(name \<mapsto> v)\<rparr>"

text \<open>\<^verbatim>\<open>inf_data.layers[name][_expt_idx, :] = v\<close>\<close>

definition assign_layer_rows :: "string \<Rightarrow> bool list \<Rightarrow> nat \<times> nat \<Rightarrow> matrix \<Rightarrow> anndata \<Rightarrow> error + anndata" where
  "assign_layer_rows name idx vshape v a =
     ebind (lookup (layers a) name) (\<lambda>L.
     ebind (mask_assign idx (n_vars a) L vshape v) (\<lambda>L'.
     Inr (set_layer name L' a)))"

definition merge_expt :: "'k figure_data \<Rightarrow> anndata \<Rightarrow> 'k \<Rightarrow> error + anndata" where
  "merge_expt data inf_data k =
     ebind (decay_data data k) (\<lambda>dd.
     let expt_idx = isin (obs_names inf_data) (obs_names dd) in
     ebind (denoised_data data k) (\<lambda>dn.
     ebind (assign_layer_rows ''denoised'' expt_idx (shape dn) (X dn) inf_data) (\<lambda>a1.
     ebind (lookup (layers dd) ''rapamycin_velocity'') (\<lambda>rv.
     ebind (assign_layer_rows ''rapamycin_velocity'' expt_idx (shape dd) rv a1) (\<lambda>a2.
     ebind (lookup (layers dd) ''cell_cycle_velocity'') (\<lambda>cv.
     assign_layer_rows ''cell_cycle_velocity'' expt_idx (shape dd) cv a2))))))"

fun merge_loop :: "'k figure_data \<Rightarrow> 'k list \<Rightarrow> anndata \<Rightarrow> error + anndata" where
  "merge_loop data [] inf_data = Inr inf_data"
| "merge_loop data (k # ks) inf_data = ebind (merge_expt data inf_data k) (merge_loop data ks)"

section \<open>Base construction (lines 45 to 63)\<close>

text \<open>\<^verbatim>\<open>df[[c1, c2, ...]]\<close>: the named columns, a \<^verbatim>\<open>KeyError\<close> at the first one missing.\<close>

fun restrict_columns :: "(string \<rightharpoonup> 'a) \<Rightarrow> string list \<Rightarrow> error + (string \<rightharpoonup> 'a)" where
  "restrict_columns d [] = Inr Map.empty"
| "restrict_columns d (c # cs) =
     ebind (lookup d c) (\<lambda>v.
     ebind (restrict_columns d cs) (\<lambda>r. Inr (r(c \<mapsto> v))))"

text \<open>
  \<^verbatim>\<open>inf_data.obs[[c1, c2]] = arr[:, 0:2]\<close>: the slice keeps at most two columns, and
  pandas refuses a value whose column count is not the number of keys.
\<close>

definition set_obs_pair :: "string \<Rightarrow> string \<Rightarrow> nat \<times> matrix \<Rightarrow> anndata \<Rightarrow> error + anndata" where
  "set_obs_pair c1 c2 arr a =
     (case arr of (d, rows) \<Rightarrow>
        if min d 2 = 2
        then Inr (a\<lparr>obs := (obs a)(c1 \<mapsto> map (\<lambda>row. F (row ! 0)) rows,
                                     c2 \<mapsto> map (\<lambda>row. F (row ! 1)) rows)\<rparr>)
        else Inl (ValueError ''Columns must be same length as key''))"

definition program_column :: "anndata \<Rightarrow> string \<Rightarrow> error + string" where
  "program_column all_d role =
     ebind (case uns_programs all_d of None \<Rightarrow> Inl (KeyError ''programs'') | Some p \<Rightarrow> Inr p) (\<lambda>p.
     ebind (lookup p role) (\<lambda>ident. Inr (''program_'' @ ident @ ''_time'')))"

text \<open>\<^verbatim>\<open>inf_data.obs[dst] = inf_data.obs[f'program_{_all.uns["programs"][role]}_time']\<close>\<close>

definition copy_program_time :: "anndata \<Rightarrow> string \<Rightarrow> string \<Rightarrow> anndata \<Rightarrow> error + anndata" where
  "copy_program_time all_d role dst a =
     ebind (program_column all_d role) (\<lambda>src.
     ebind (lookup (obs a) src) (\<lambda>col.
     Inr (a\<lparr>obs := (obs a)(dst \<mapsto> col)\<rparr>)))"

text \<open>Lines 45 to 55: the new object, its decay constants and the embedding coordinates.\<close>

definition base_store :: "anndata \<Rightarrow> error + anndata" where
  "base_store all_d =
     ebind (lookup (layers all_d) ''counts'') (\<lambda>counts.
     ebind (restrict_columns (var all_d) [''CommonName'', ''category'', ''programs'']) (\<lambda>v.
     let inf0 = \<lparr>obs_names = obs_names all_d, var_names = var_names all_d, X = counts,
                 layers = Map.empty, obs = obs all_d, var = v, obsm = Map.empty,
                 uns_programs = None\<rparr> in
     ebind (lookup (layers all_d) ''decay_constants'') (\<lambda>dc.
     let inf1 = set_layer ''decay_constants'' dc inf0 in
     ebind (lookup (obsm all_d) ''X_umap'') (\<lambda>umap.
     ebind (set_obs_pair ''UMAP_1'' ''UMAP_2'' umap inf1) (\<lambda>inf2.
     ebind (lookup (obsm all_d) ''X_pca'') (\<lambda>pca.
     set_obs_pair ''PCA_1'' ''PCA_2'' pca inf2))))))"

text \<open>Lines 45 to 63.\<close>

definition base_construction :: "anndata \<Rightarrow> error + anndata" where
  "base_construction all_d =
     ebind (base_store all_d) (\<lambda>inf3.
     ebind (copy_program_time all_d ''rapa_program'' ''program_rapa_time'' inf3) (\<lambda>inf4.
     copy_program_time all_d ''cell_cycle_program'' ''program_cc_time'' inf4))"

section \<open>Layer set-up and normalisation (lines 70 to 86)\<close>

text \<open>\<^verbatim>\<open>adata[msk, :]\<close>: every row-aligned part is cut to the flagged rows.\<close>

definition subset_obs :: "bool list \<Rightarrow> anndata \<Rightarrow> anndata" where
  "subset_obs msk a =
     a\<lparr>obs_names := select msk (obs_names a),
       X := select msk (X a),
       layers := map_option (select msk) \<circ> layers a,
       obs := map_option (select msk) \<circ> obs a,
       obsm := map_option (\<lambda>(d, rows). (d, select msk rows)) \<circ> obsm a\<rparr>"

text \<open>\<^verbatim>\<open>adata[:, msk]\<close>: every column-aligned part is cut to the flagged columns.\<close>

definition subset_var :: "bool list \<Rightarrow> anndata \<Rightarrow> anndata" where
  "subset_var msk a =
     a\<lparr>var_names := select msk (var_names a),
       X := map (select msk) (X a),
       layers := map_option (map (select msk)) \<circ> layers a,
       var := map_option (select msk) \<circ> var a\<rparr>"

definition fsum :: "fval list \<Rightarrow> fval" where
  "fsum xs = foldl fadd (Fin 0) xs"

fun finsert :: "fval \<Rightarrow> fval list \<Rightarrow> fval list" where
  "finsert x [] = [x]"
| "finsert x (y # ys) = (if fle x y then x # y # ys else y # finsert x ys)"

definition fsort :: "fval list \<Rightarrow> fval list" where
  "fsort xs = foldr finsert xs []"

text \<open>
  \<^verbatim>\<open>np.median\<close>: not-a-number for an empty array or when an element is not-a-number,
  else the middle element of the sorted array, or the mean of the two middle ones.
\<close>

definition np_median :: "fval list \<Rightarrow> fval" where
  "np_median xs =
     (if xs = [] \<or> list_ex isnan xs then NaN
      else let s = fsort xs; n = length xs in
        if even n then fdiv (fadd (s ! (n div 2 - 1)) (s ! (n div 2))) (Fin 2)
        else s ! (n div 2))"

text \<open>
  The per-row divisors of \<^verbatim>\<open>scanpy.pp.normalize_per_cell\<close>, from the row totals of the
  rows kept:
  \<^verbatim>\<open>
    counts_per_cell_after = np.median(counts_per_cell)
    counts_per_cell += counts_per_cell == 0
    counts_per_cell /= counts_per_cell_after
  \<close>
\<close>

definition cell_divisors :: "fval list \<Rightarrow> fval list" where
  "cell_divisors counts_per_cell =
     (let after = np_median counts_per_cell in
      map (\<lambda>t. fdiv (fadd t (if feq t (Fin 0) then Fin 1 else Fin 0)) after) counts_per_cell)"

text \<open>
  The primary matrix is a sparse matrix (line 156 reads \<^verbatim>\<open>.A1\<close> of its column sums,
  which only the sum of a sparse matrix has), so the rows are scaled by
  \<^verbatim>\<open>inplace_row_scale(X, 1 / counts_per_cell)\<close>: every stored entry is multiplied by the
  reciprocal of its row's divisor, and the zeros, which are not stored, stay.
\<close>

definition scale_row :: "fval \<Rightarrow> fval list \<Rightarrow> fval list" where
  "scale_row d row = map (\<lambda>x. if x = Fin 0 then x else fmul x (fdiv (Fin 1) d)) row"

text \<open>
  \<^verbatim>\<open>sc.pp.normalize_per_cell(adata, min_counts=...)\<close> on an \<^verbatim>\<open>AnnData\<close>, the other
  arguments at their defaults: the row totals are stored in the column \<^verbatim>\<open>n_counts\<close> of
  \<open>obs\<close>, the rows whose total is below \<open>min_counts\<close> are dropped, and the rows kept are
  scaled. No layer is normalised.
\<close>

definition normalize_per_cell :: "fval \<Rightarrow> anndata \<Rightarrow> anndata" where
  "normalize_per_cell min_counts a =
     (let totals = map fsum (X a);
          cell_subset = map (\<lambda>t. fge t min_counts) totals;
          a1 = a\<lparr>obs := (obs a)(''n_counts'' \<mapsto> map F totals)\<rparr>;
          a2 = subset_obs cell_subset a1;
          counts_per_cell = select cell_subset totals
      in a2\<lparr>X := map2 scale_row (cell_divisors counts_per_cell) (X a2)\<rparr>)"

text \<open>
  The counts are kept as a layer, the primary matrix becomes floating point (the values
  stay the same here, where finite arithmetic is exact) and is normalised, and the three
  new layers are filled with not-a-number.
\<close>

definition layer_setup :: "anndata \<Rightarrow> anndata" where
  "layer_setup a =
     (let a1 = set_layer ''counts'' (X a) a;
          a2 = normalize_per_cell (Fin 0) a1;
          a3 = set_layer ''rapamycin_velocity'' (np_full_nan (n_obs a2) (n_vars a2)) a2;
          a4 = set_layer ''cell_cycle_velocity'' (np_full_nan (n_obs a3) (n_vars a3)) a3
      in set_layer ''denoised'' (np_full_nan (n_obs a4) (n_vars a4)) a4)"

section \<open>Cohort filter, derived layers, feature trim (lines 106 to 160)\<close>

definition wt_filter :: "anndata \<Rightarrow> error + anndata" where
  "wt_filter a =
     ebind (lookup (obs a) ''Gene'') (\<lambda>g.
     Inr (subset_obs (map (\<lambda>c. c = S ''WT'') g) a))"

definition mat_add :: "matrix \<Rightarrow> matrix \<Rightarrow> matrix" where
  "mat_add A B = map2 (map2 fadd) A B"

definition mat_mul :: "matrix \<Rightarrow> matrix \<Rightarrow> matrix" where
  "mat_mul A B = map2 (map2 fmul) A B"

text \<open>
  \<^verbatim>\<open>
    inf_data.layers[out] = inf_data.layers[vel].copy()
    inf_data.layers[out] += np.multiply(inf_data.layers["decay_constants"],
                                        inf_data.layers["denoised"])
  \<close>
\<close>

definition add_transcription :: "string \<Rightarrow> string \<Rightarrow> anndata \<Rightarrow> error + anndata" where
  "add_transcription vel out a =
     ebind (lookup (layers a) vel) (\<lambda>v.
     let a1 = set_layer out v a in
     ebind (lookup (layers a1) out) (\<lambda>t.
     ebind (lookup (layers a1) ''decay_constants'') (\<lambda>dc.
     ebind (lookup (layers a1) ''denoised'') (\<lambda>dn.
     Inr (set_layer out (mat_add t (mat_mul dc dn)) a1)))))"

text \<open>\<^verbatim>\<open>X.sum(axis=0)\<close> of a matrix with \<open>m\<close> columns.\<close>

definition colsums :: "nat \<Rightarrow> matrix \<Rightarrow> fval list" where
  "colsums m A = foldl (map2 fadd) (replicate m (Fin 0)) A"

definition has_expression :: "anndata \<Rightarrow> bool list" where
  "has_expression a = map (\<lambda>s. fgt s (Fin 0)) (colsums (n_vars a) (X a))"

definition trim :: "anndata \<Rightarrow> anndata" where
  "trim a = (if \<not> list_all id (has_expression a) then subset_var (has_expression a) a else a)"

section \<open>The pipeline\<close>

text \<open>
  \<^verbatim>\<open>_data_packager\<close> with \<^verbatim>\<open>out_file=None\<close>. The progress messages, the release of the
  source object (\<^verbatim>\<open>data._unload()\<close>, \<^verbatim>\<open>del dd\<close>, \<^verbatim>\<open>gc.collect()\<close>) and the counts of
  not-a-number that are printed do not change the store and are left out. An exception of
  any step ends the run: it is the \<open>Inl\<close> result.
\<close>

definition data_packager :: "'k figure_data \<Rightarrow> error + anndata" where
  "data_packager data =
     ebind (base_construction (all_data data)) (\<lambda>a.
     ebind (merge_loop data (expts data) (layer_setup a)) (\<lambda>b.
     ebind (wt_filter b) (\<lambda>c.
     ebind (add_transcription ''rapamycin_velocity'' ''rapamycin_transcription'' c) (\<lambda>d.
     ebind (add_transcription ''cell_cycle_velocity'' ''cell_cycle_transcription'' d) (\<lambda>e.
     Inr (trim e))))))"

section \<open>Shapes and identifiers\<close>

definition wf_matrix :: "nat \<Rightarrow> nat \<Rightarrow> matrix \<Rightarrow> bool" where
  "wf_matrix n m A = (length A = n \<and> list_all (\<lambda>row. length row = m) A)"

text \<open>
  The shape invariant of a store: the primary matrix and every layer have the shape of the
  store, and every column of the observation table has one entry per observation.
\<close>

definition shape_inv :: "anndata \<Rightarrow> bool" where
  "shape_inv a =
     (wf_matrix (n_obs a) (n_vars a) (X a) \<and>
      (\<forall>name L. layers a name = Some L \<longrightarrow> wf_matrix (n_obs a) (n_vars a) L) \<and>
      (\<forall>c col. obs a c = Some col \<longrightarrow> length col = n_obs a))"

text \<open>Every product the loaders return is an \<^verbatim>\<open>AnnData\<close> object, so it has the invariant.\<close>

definition products_ok :: "'k figure_data \<Rightarrow> bool" where
  "products_ok data =
     ((\<forall>k dd. decay_data data k = Inr dd \<longrightarrow> shape_inv dd) \<and>
      (\<forall>k dn. denoised_data data k = Inr dn \<longrightarrow> shape_inv dn))"

text \<open>
  The identifiers of a product are those of the store that belong to it, in the order of
  the store.
\<close>

definition aligned :: "string list \<Rightarrow> string list \<Rightarrow> bool" where
  "aligned names ids = (filter (\<lambda>n. n \<in> set ids) names = ids)"

text \<open>
  Every row of the layer \<open>L\<close> whose identifier belongs to the product holds the row that
  the product's matrix \<open>V\<close> has for that identifier.
\<close>

definition rows_placed :: "string list \<Rightarrow> string list \<Rightarrow> matrix \<Rightarrow> matrix \<Rightarrow> bool" where
  "rows_placed names ids V L =
     (\<forall>r < length names. names ! r \<in> set ids \<longrightarrow> map_of (zip ids V) (names ! r) = Some (L ! r))"

text \<open>
  Every row of the layer \<open>L\<close> that the identifiers \<open>sel\<close> select holds the row that the
  matrix \<open>V\<close>, whose rows are listed by \<open>ids\<close>, has for the identifier of the row.
\<close>

definition selected_placed ::
  "string list \<Rightarrow> string list \<Rightarrow> string list \<Rightarrow> matrix \<Rightarrow> matrix \<Rightarrow> bool" where
  "selected_placed names sel ids V L =
     (\<forall>r < length names. names ! r \<in> set sel \<longrightarrow> map_of (zip ids V) (names ! r) = Some (L ! r))"

text \<open>The identifiers of every experiment of the list whose decay product loads.\<close>

definition covered :: "'k figure_data \<Rightarrow> 'k list \<Rightarrow> string set" where
  "covered data ks = (\<Union>k \<in> set ks. case decay_data data k of Inl e \<Rightarrow> {} | Inr dd \<Rightarrow> set (obs_names dd))"

fun is_count :: "fval \<Rightarrow> bool" where
  "is_count (Fin q) = (0 \<le> q)"
| "is_count _ = False"

text \<open>Every embedding of a source object has one row per observation.\<close>

definition obsm_inv :: "anndata \<Rightarrow> bool" where
  "obsm_inv a = (\<forall>k d rows. obsm a k = Some (d, rows) \<longrightarrow> length rows = n_obs a)"

text \<open>The layers the merge loop writes.\<close>

definition merged_layers :: "string set" where
  "merged_layers = {''denoised'', ''rapamycin_velocity'', ''cell_cycle_velocity''}"

section \<open>Example stores\<close>

text \<open>The source object from which the pipeline starts, with the same three observations.\<close>

definition small_source :: anndata where
  "small_source =
     \<lparr>obs_names = [''c0'', ''c1'', ''c2''], var_names = [''g0''],
      X = [[Fin 1], [Fin 0], [Fin 2]],
      layers = [''counts'' \<mapsto> [[Fin 1], [Fin 0], [Fin 2]],
                ''decay_constants'' \<mapsto> [[Fin 1], [Fin 1], [Fin 1]]],
      obs = [''Gene'' \<mapsto> [S ''WT'', S ''MUT'', S ''WT''],
             ''program_0_time'' \<mapsto> [F (Fin 1), F (Fin 2), F (Fin 3)],
             ''program_1_time'' \<mapsto> [F (Fin 4), F (Fin 5), F (Fin 6)]],
      var = [''CommonName'' \<mapsto> [S ''A''], ''category'' \<mapsto> [S ''x''],
             ''programs'' \<mapsto> [S ''0'']],
      obsm = [''X_umap'' \<mapsto> (2, [[Fin 0, Fin 1], [Fin 0, Fin 1], [Fin 0, Fin 1]]),
              ''X_pca'' \<mapsto> (3, [[Fin 2, Fin 3, Fin 4], [Fin 2, Fin 3, Fin 4],
                                    [Fin 2, Fin 3, Fin 4]])],
      uns_programs = Some [''rapa_program'' \<mapsto> ''0'', ''cell_cycle_program'' \<mapsto> ''1'']\<rparr>"

definition small_base :: anndata where
  "small_base = projr (base_construction small_source)"

text \<open>
  A store of three observations and one feature, after base construction, and one
  experiment that covers the first and the third observation.
\<close>

definition small_store :: anndata where
  "small_store =
     \<lparr>obs_names = [''c0'', ''c1'', ''c2''], var_names = [''g0''],
      X = [[Fin 1], [Fin 0], [Fin 2]],
      layers = [''decay_constants'' \<mapsto> [[Fin 1], [Fin 1], [Fin 1]]],
      obs = [''Gene'' \<mapsto> [S ''WT'', S ''MUT'', S ''WT'']],
      var = Map.empty, obsm = Map.empty, uns_programs = None\<rparr>"

definition small_product :: "string list \<Rightarrow> matrix \<Rightarrow> (string \<rightharpoonup> matrix) \<Rightarrow> anndata" where
  "small_product ids M ls =
     \<lparr>obs_names = ids, var_names = [''g0''], X = M, layers = ls,
      obs = Map.empty, var = Map.empty, obsm = Map.empty, uns_programs = None\<rparr>"

definition small_decay :: anndata where
  "small_decay = small_product [''c0'', ''c2''] [[Fin 1], [Fin 2]]
     [''rapamycin_velocity'' \<mapsto> [[Fin (1 / 2)], [Fin (3 / 2)]],
      ''cell_cycle_velocity'' \<mapsto> [[Fin (1 / 4)], [Fin (3 / 4)]],
      ''decay_constants'' \<mapsto> [[Fin 7], [Fin 7]]]"

definition small_denoised :: anndata where
  "small_denoised = small_product [''c0'', ''c2''] [[Fin 1], [Fin 2]] Map.empty"

definition small_data :: "nat figure_data" where
  "small_data = \<lparr>all_data = small_source, expts = [0], decay_data = (\<lambda>k. Inr small_decay),
                 denoised_data = (\<lambda>k. Inr small_denoised)\<rparr>"

definition small_merged :: anndata where
  "small_merged = projr (merge_loop small_data [0] (layer_setup small_store))"

text \<open>The same experiment with its two observations listed in the other order.\<close>

definition swapped_decay :: anndata where
  "swapped_decay = small_product [''c2'', ''c0''] [[Fin 2], [Fin 1]]
     [''rapamycin_velocity'' \<mapsto> [[Fin (1 / 2)], [Fin (3 / 2)]],
      ''cell_cycle_velocity'' \<mapsto> [[Fin (1 / 4)], [Fin (3 / 4)]]]"

definition swapped_data :: "nat figure_data" where
  "swapped_data = \<lparr>all_data = small_source, expts = [0], decay_data = (\<lambda>k. Inr swapped_decay),
                   denoised_data = (\<lambda>k. Inr (small_product [''c2'', ''c0''] [[Fin 2], [Fin 1]] Map.empty))\<rparr>"

definition swapped_merged :: anndata where
  "swapped_merged = projr (merge_loop swapped_data [0] (layer_setup small_store))"

text \<open>
  The experiment again, with a denoised product of one observation, and with a denoised
  product of three.
\<close>

definition single_data :: "nat figure_data" where
  "single_data = \<lparr>all_data = small_source, expts = [0], decay_data = (\<lambda>k. Inr small_decay),
       denoised_data = (\<lambda>k. Inr (small_product [''c0''] [[Fin 9]] Map.empty))\<rparr>"

definition triple_data :: "nat figure_data" where
  "triple_data = \<lparr>all_data = small_source, expts = [0], decay_data = (\<lambda>k. Inr small_decay),
       denoised_data = (\<lambda>k. Inr (small_product [''c0'', ''c1'', ''c2'']
                                     [[Fin 1], [Fin 0], [Fin 2]] Map.empty))\<rparr>"

text \<open>The stores of the pipeline on the example, stage by stage.\<close>

definition small_b :: anndata where
  "small_b = projr (merge_loop small_data (expts small_data) (layer_setup small_base))"

definition small_c :: anndata where
  "small_c = projr (wt_filter small_b)"

definition small_d :: anndata where
  "small_d = projr (add_transcription ''rapamycin_velocity'' ''rapamycin_transcription'' small_c)"

definition small_e :: anndata where
  "small_e = projr (add_transcription ''cell_cycle_velocity'' ''cell_cycle_transcription'' small_d)"






text \<open>
  The source object with other attribute maps: a cell-cycle program named \<open>rapa\<close>, and
  programs that have no column.
\<close>

definition alias_source :: anndata where
  "alias_source = small_source\<lparr>uns_programs :=
      Some [''rapa_program'' \<mapsto> ''0'', ''cell_cycle_program'' \<mapsto> ''rapa'']\<rparr>"

definition missing_source :: anndata where
  "missing_source = small_source\<lparr>uns_programs :=
      Some [''rapa_program'' \<mapsto> ''9'', ''cell_cycle_program'' \<mapsto> ''1'']\<rparr>"

definition missing_cc_source :: anndata where
  "missing_cc_source = small_source\<lparr>uns_programs :=
      Some [''rapa_program'' \<mapsto> ''0'', ''cell_cycle_program'' \<mapsto> ''8'']\<rparr>"

text \<open>The example store with two empty rows, so that the median row total is zero.\<close>

definition zero_store :: anndata where
  "zero_store = small_store\<lparr>X := [[Fin 0], [Fin 0], [Fin 5]]\<rparr>"

section \<open>Properties of the array operations and of the merge loop\<close>

lemma ebind_Inr_iff: "(ebind m f = Inr y) = (\<exists>x. m = Inr x \<and> f x = Inr y)"
  by (cases m) (simp_all add: ebind_def)

lemma ebind_Inl: "ebind (Inl e) f = Inl e"
  by (simp add: ebind_def)

lemma ebind_Inr: "ebind (Inr x) f = f x"
  by (simp add: ebind_def)

lemma lookup_Inr_iff: "(lookup d k = Inr v) = (d k = Some v)"
  by (simp add: lookup_def split: option.splits)

lemma length_put_rows: "length (put_rows msk A v) = length A"
  by (induction msk A v rule: put_rows.induct) simp_all

lemma put_rows_unflagged:
  "r < length A \<Longrightarrow> (r < length msk \<Longrightarrow> \<not> msk ! r) \<Longrightarrow> put_rows msk A v ! r = A ! r"
  by (induction msk A v arbitrary: r rule: put_rows.induct)
     (auto simp: nth_Cons split: nat.splits)

lemma put_rows_flagged:
  "length msk = length A \<Longrightarrow> count_true msk \<le> length v \<Longrightarrow> r < length A \<Longrightarrow> msk ! r \<Longrightarrow>
   put_rows msk A v ! r = v ! count_true (take r msk)"
  by (induction msk A v arbitrary: r rule: put_rows.induct)
     (auto simp: nth_Cons count_true_def split: nat.splits)

lemma select_map_filter: "select (map P xs) xs = filter P xs"
  by (induction xs) simp_all

lemma count_true_map: "count_true (map P xs) = length (filter P xs)"
  by (induction xs) (simp_all add: count_true_def)

lemma aligned_position:
  assumes "aligned names ids" "r < length names" "names ! r \<in> set ids"
  shows "count_true (take r (isin names ids)) < length ids \<and>
         ids ! count_true (take r (isin names ids)) = names ! r"
proof -
  let ?P = "\<lambda>n. n \<in> set ids"
  have split: "names = take r names @ names ! r # drop (Suc r) names"
    using assms(2) by (simp add: id_take_nth_drop)
  have "filter ?P names = filter ?P (take r names) @ names ! r # filter ?P (drop (Suc r) names)"
    using assms(3) by (subst split) simp
  then have ids: "ids = filter ?P (take r names) @ names ! r # filter ?P (drop (Suc r) names)"
    using assms(1) by (simp add: aligned_def)
  have c: "count_true (take r (isin names ids)) = length (filter ?P (take r names))"
    by (simp add: isin_def take_map count_true_map)
  show ?thesis
    unfolding c by (subst (1 3) ids) (simp add: nth_append)
qed

lemma assign_layer_rows_Inr:
  "(assign_layer_rows name idx sh v a = Inr b) =
   (\<exists>L v'. layers a name = Some L \<and>
            np_broadcast_to (count_true idx, n_vars a) sh v = Inr v' \<and>
            b = set_layer name (put_rows idx L (as_float32 v')) a)"
  by (auto simp: assign_layer_rows_def mask_assign_def ebind_Inr_iff lookup_Inr_iff)

lemma n_vars_set_layer: "n_vars (set_layer name L a) = n_vars a"
  by (simp add: set_layer_def n_vars_def)

lemma merge_exptE:
  assumes "merge_expt data a k = Inr b"
  obtains dd dn rv cv Ld Lr Lc vd vr vc where
    "decay_data data k = Inr dd" "denoised_data data k = Inr dn"
    "layers dd ''rapamycin_velocity'' = Some rv" "layers dd ''cell_cycle_velocity'' = Some cv"
    "layers a ''denoised'' = Some Ld" "layers a ''rapamycin_velocity'' = Some Lr"
    "layers a ''cell_cycle_velocity'' = Some Lc"
    "np_broadcast_to (count_true (isin (obs_names a) (obs_names dd)), n_vars a) (shape dn) (X dn) = Inr vd"
    "np_broadcast_to (count_true (isin (obs_names a) (obs_names dd)), n_vars a) (shape dd) rv = Inr vr"
    "np_broadcast_to (count_true (isin (obs_names a) (obs_names dd)), n_vars a) (shape dd) cv = Inr vc"
    "b = a\<lparr>layers := (layers a)
           (''denoised'' \<mapsto> put_rows (isin (obs_names a) (obs_names dd)) Ld (as_float32 vd),
            ''rapamycin_velocity'' \<mapsto> put_rows (isin (obs_names a) (obs_names dd)) Lr (as_float32 vr),
            ''cell_cycle_velocity'' \<mapsto> put_rows (isin (obs_names a) (obs_names dd)) Lc (as_float32 vc))\<rparr>"
  using assms
  by (auto simp: merge_expt_def Let_def ebind_Inr_iff lookup_Inr_iff assign_layer_rows_Inr
                 n_vars_def set_layer_def)

lemma merge_expt_frame:
  assumes "merge_expt data a k = Inr b"
  shows "obs_names b = obs_names a" "var_names b = var_names a" "X b = X a" "obs b = obs a"
    "var b = var a" "n_obs b = n_obs a" "n_vars b = n_vars a"
    "l \<notin> merged_layers \<Longrightarrow> layers b l = layers a l"
  using assms by (auto elim!: merge_exptE simp: n_obs_def n_vars_def merged_layers_def)

lemma merge_expt_layer:
  assumes "merge_expt data a k = Inr b" "l \<in> merged_layers"
  obtains dd L v where "decay_data data k = Inr dd" "layers a l = Some L"
    "layers b l = Some (put_rows (isin (obs_names a) (obs_names dd)) L v)"
  using assms by (auto elim!: merge_exptE simp: merged_layers_def)

lemma merge_loop_frame:
  "merge_loop data ks a = Inr b \<Longrightarrow>
     obs_names b = obs_names a \<and> var_names b = var_names a \<and> X b = X a \<and> obs b = obs a \<and>
     var b = var a \<and> (\<forall>l. l \<notin> merged_layers \<longrightarrow> layers b l = layers a l)"
proof (induction ks arbitrary: a)
  case Nil
  then show ?case by simp
next
  case (Cons k ks)
  from Cons.prems obtain a' where step: "merge_expt data a k = Inr a'"
    and rest: "merge_loop data ks a' = Inr b"
    by (auto simp: ebind_Inr_iff)
  from Cons.IH[OF rest] merge_expt_frame[OF step] show ?case by simp
qed

lemma isin_nth: "r < length names \<Longrightarrow> isin names ids ! r = (names ! r \<in> set ids)"
  by (simp add: isin_def)

lemma length_isin: "length (isin names ids) = length names"
  by (simp add: isin_def)

lemma covered_Cons:
  "covered data (k # ks) =
     (case decay_data data k of Inl e \<Rightarrow> {} | Inr dd \<Rightarrow> set (obs_names dd)) \<union> covered data ks"
  by (simp add: covered_def)

lemma merge_loop_untouched:
  "merge_loop data ks a = Inr b \<Longrightarrow> l \<in> merged_layers \<Longrightarrow> layers a l = Some L \<Longrightarrow>
   length L = n_obs a \<Longrightarrow> r < n_obs a \<Longrightarrow> obs_names a ! r \<notin> covered data ks \<Longrightarrow>
   \<exists>L'. layers b l = Some L' \<and> length L' = n_obs a \<and> L' ! r = L ! r"
proof (induction ks arbitrary: a L)
  case Nil
  then show ?case by simp
next
  case (Cons k ks)
  from Cons.prems(1) obtain a' where step: "merge_expt data a k = Inr a'"
    and rest: "merge_loop data ks a' = Inr b"
    by (auto simp: ebind_Inr_iff)
  from merge_expt_layer[OF step Cons.prems(2)] obtain dd L0 v where
    dd: "decay_data data k = Inr dd" and L0: "layers a l = Some L0"
    and L1: "layers a' l = Some (put_rows (isin (obs_names a) (obs_names dd)) L0 v)"
    by blast
  let ?L1 = "put_rows (isin (obs_names a) (obs_names dd)) L"
  have eq: "L0 = L" using L0 Cons.prems(3) by simp
  have notin: "obs_names a ! r \<notin> set (obs_names dd)" "obs_names a ! r \<notin> covered data ks"
    using Cons.prems(6) dd by (simp_all add: covered_Cons)
  have row: "put_rows (isin (obs_names a) (obs_names dd)) L v ! r = L ! r"
    using Cons.prems(4,5) notin(1)
    by (intro put_rows_unflagged) (simp_all add: n_obs_def isin_nth)
  have fr: "obs_names a' = obs_names a" "n_obs a' = n_obs a"
    using merge_expt_frame[OF step] by simp_all
  have "\<exists>L'. layers b l = Some L' \<and> length L' = n_obs a' \<and>
          L' ! r = put_rows (isin (obs_names a) (obs_names dd)) L v ! r"
    using Cons.prems(4,5) notin(2) L1
    by (intro Cons.IH[OF rest Cons.prems(2)]) (simp_all add: eq fr length_put_rows)
  then show ?case by (simp add: row fr)
qed

lemma aligned_count: "aligned names ids \<Longrightarrow> count_true (isin names ids) = length ids"
  by (simp add: isin_def count_true_map aligned_def)

lemma aligned_distinct: "aligned names ids \<Longrightarrow> distinct names \<Longrightarrow> distinct ids"
  by (metis aligned_def distinct_filter)

lemma put_rows_placed:
  assumes "aligned names ids" "distinct names" "length V = length ids" "length L = length names"
  shows "rows_placed names ids V (put_rows (isin names ids) L V)"
  unfolding rows_placed_def
proof (intro allI impI)
  fix r
  assume r: "r < length names" and mem: "names ! r \<in> set ids"
  let ?j = "count_true (take r (isin names ids))"
  have j: "?j < length ids" "ids ! ?j = names ! r"
    using aligned_position[OF assms(1) r mem] by simp_all
  have row: "put_rows (isin names ids) L V ! r = V ! ?j"
    using assms r mem
    by (intro put_rows_flagged) (simp_all add: length_isin aligned_count isin_nth)
  have "map_of (zip ids V) (ids ! ?j) = Some (V ! ?j)"
    using assms(3) aligned_distinct[OF assms(1,2)] j(1)
    by (intro map_of_zip_nth) simp_all
  then show "map_of (zip ids V) (names ! r) = Some (put_rows (isin names ids) L V ! r)"
    by (simp add: j(2) row)
qed

lemma put_rows_keeps_placed:
  assumes "rows_placed names ids V L" "set ids' \<inter> set ids = {}" "length L = length names"
  shows "rows_placed names ids V (put_rows (isin names ids') L v)"
  unfolding rows_placed_def
proof (intro allI impI)
  fix r
  assume r: "r < length names" and mem: "names ! r \<in> set ids"
  have "names ! r \<notin> set ids'" using mem assms(2) by blast
  then have "put_rows (isin names ids') L v ! r = L ! r"
    using r assms(3) by (intro put_rows_unflagged) (simp_all add: isin_nth)
  then show "map_of (zip ids V) (names ! r) = Some (put_rows (isin names ids') L v ! r)"
    using assms(1) r mem by (simp add: rows_placed_def)
qed

lemma np_broadcast_to_same:
  "np_broadcast_to (k, m) (k, m) V = Inr V"
  by (simp add: np_broadcast_to_def)

lemma merge_loop_placed:
  assumes est: "\<And>a' b' L. merge_expt data a' k = Inr b' \<Longrightarrow> obs_names a' = names \<Longrightarrow>
      n_vars a' = m \<Longrightarrow> layers a' l = Some L \<Longrightarrow> length L = length names \<Longrightarrow>
      \<exists>L'. layers b' l = Some L' \<and> rows_placed names ids V L'"
    and l: "l \<in> merged_layers"
  shows "merge_loop data ks a = Inr b \<Longrightarrow> obs_names a = names \<Longrightarrow> n_vars a = m \<Longrightarrow>
    layers a l = Some L \<Longrightarrow>
    length L = length names \<Longrightarrow> k \<in> set ks \<or> rows_placed names ids V L \<Longrightarrow>
    \<forall>k'\<in>set ks. k' \<noteq> k \<longrightarrow> (\<forall>dd'. decay_data data k' = Inr dd' \<longrightarrow> set (obs_names dd') \<inter> set ids = {}) \<Longrightarrow>
    \<exists>L'. layers b l = Some L' \<and> rows_placed names ids V L'"
proof (induction ks arbitrary: a L)
  case Nil
  then show ?case by simp
next
  case (Cons x ks)
  from Cons.prems(1) obtain a' where step: "merge_expt data a x = Inr a'"
    and rest: "merge_loop data ks a' = Inr b"
    by (auto simp: ebind_Inr_iff)
  from merge_expt_layer[OF step l] obtain dd L0 v where
    dd: "decay_data data x = Inr dd" and L0: "layers a l = Some L0"
    and L1: "layers a' l = Some (put_rows (isin (obs_names a) (obs_names dd)) L0 v)"
    by blast
  let ?L1 = "put_rows (isin names (obs_names dd)) L v"
  have L1': "layers a' l = Some ?L1"
    using L0 L1 Cons.prems(2,4) by simp
  have names': "obs_names a' = names"
    using merge_expt_frame(1)[OF step] Cons.prems(2) by simp
  have len: "length ?L1 = length names"
    using Cons.prems(5) by (simp add: length_put_rows)
  have m': "n_vars a' = m"
    using merge_expt_frame(7)[OF step] Cons.prems(3) by simp
  have inv: "k \<in> set ks \<or> rows_placed names ids V ?L1"
  proof (cases "x = k")
    case True
    from est[OF step[unfolded True] Cons.prems(2,3,4,5)] L1' show ?thesis by auto
  next
    case False
    show ?thesis
    proof (cases "k \<in> set ks")
      case True
      then show ?thesis by simp
    next
      case notin: False
      then have pl: "rows_placed names ids V L" using Cons.prems(6) False by auto
      have "set (obs_names dd) \<inter> set ids = {}"
        using Cons.prems(7) False dd by simp
      from put_rows_keeps_placed[OF pl this Cons.prems(5)] show ?thesis by simp
    qed
  qed
  show ?case
    using Cons.prems(7) by (intro Cons.IH[OF rest names' m' L1' len inv]) simp
qed

lemma shape_inv_layer_length: "shape_inv p \<Longrightarrow> layers p l = Some V \<Longrightarrow> length V = n_obs p"
  by (auto simp: shape_inv_def wf_matrix_def)

lemma shape_inv_X_length: "shape_inv p \<Longrightarrow> length (X p) = n_obs p"
  by (auto simp: shape_inv_def wf_matrix_def)

lemma broadcast_aligned:
  assumes "np_broadcast_to (count_true (isin names (obs_names p)), m) (shape p) V = Inr v"
    "aligned names (obs_names p)" "n_vars p = m"
  shows "v = V"
  using assms by (simp add: aligned_count shape_def n_obs_def np_broadcast_to_same)

text \<open>
  The conversion at work: a double-precision value next to one is stored as one, a third
  is stored as the nearest single-precision number, a value beyond the range is stored as
  an infinity, and a single-precision value is stored as it is.
\<close>

lemma to_float32_examples:
  "to_float32 (Fin (1 + 1 / 2 ^ 30)) = Fin 1"
  "to_float32 (Fin (1 / 3)) = Fin (11184811 / 33554432)"
  "to_float32 (Fin (2 ^ 128)) = PInf"
  "to_float32 (Fin (3 / 2)) = Fin (3 / 2)"
  "to_float32 NaN = NaN"
  by code_simp+

lemma length_as_float32: "length (as_float32 V) = length V"
  by (simp add: as_float32_def)

lemma merge_expt_places_rv:
  assumes "merge_expt data a k = Inr b" "decay_data data k = Inr dd"
    "layers dd ''rapamycin_velocity'' = Some D" "shape_inv dd"
    "distinct (obs_names a)" "aligned (obs_names a) (obs_names dd)" "n_vars dd = n_vars a"
    "layers a ''rapamycin_velocity'' = Some L" "length L = length (obs_names a)"
  shows "\<exists>L'. layers b ''rapamycin_velocity'' = Some L' \<and>
              rows_placed (obs_names a) (obs_names dd) (as_float32 D) L'"
  using assms(1)
proof (rule merge_exptE)
  fix dd' dn rv cv Ld Lr Lc vd vr vc
  assume h: "decay_data data k = Inr dd'" "layers dd' ''rapamycin_velocity'' = Some rv"
    "layers a ''rapamycin_velocity'' = Some Lr"
    "np_broadcast_to (count_true (isin (obs_names a) (obs_names dd')), n_vars a) (shape dd') rv = Inr vr"
    and b: "b = a\<lparr>layers := (layers a)
           (''denoised'' \<mapsto> put_rows (isin (obs_names a) (obs_names dd')) Ld (as_float32 vd),
            ''rapamycin_velocity'' \<mapsto> put_rows (isin (obs_names a) (obs_names dd')) Lr (as_float32 vr),
            ''cell_cycle_velocity'' \<mapsto> put_rows (isin (obs_names a) (obs_names dd')) Lc (as_float32 vc))\<rparr>"
  have eqs: "dd' = dd" "rv = D" "Lr = L" using h assms by simp_all
  have vr: "vr = D" using broadcast_aligned[OF h(4)[unfolded eqs] assms(6,7)] .
  have "length (as_float32 D) = length (obs_names dd)"
    using shape_inv_layer_length[OF assms(4,3)] by (simp add: n_obs_def as_float32_def)
  from put_rows_placed[OF assms(6,5) this assms(9)] show ?thesis
    by (simp add: b eqs vr)
qed

lemma merge_expt_places_cc:
  assumes "merge_expt data a k = Inr b" "decay_data data k = Inr dd"
    "layers dd ''cell_cycle_velocity'' = Some D" "shape_inv dd"
    "distinct (obs_names a)" "aligned (obs_names a) (obs_names dd)" "n_vars dd = n_vars a"
    "layers a ''cell_cycle_velocity'' = Some L" "length L = length (obs_names a)"
  shows "\<exists>L'. layers b ''cell_cycle_velocity'' = Some L' \<and>
              rows_placed (obs_names a) (obs_names dd) (as_float32 D) L'"
  using assms(1)
proof (rule merge_exptE)
  fix dd' dn rv cv Ld Lr Lc vd vr vc
  assume h: "decay_data data k = Inr dd'" "layers dd' ''cell_cycle_velocity'' = Some cv"
    "layers a ''cell_cycle_velocity'' = Some Lc"
    "np_broadcast_to (count_true (isin (obs_names a) (obs_names dd')), n_vars a) (shape dd') cv = Inr vc"
    and b: "b = a\<lparr>layers := (layers a)
           (''denoised'' \<mapsto> put_rows (isin (obs_names a) (obs_names dd')) Ld (as_float32 vd),
            ''rapamycin_velocity'' \<mapsto> put_rows (isin (obs_names a) (obs_names dd')) Lr (as_float32 vr),
            ''cell_cycle_velocity'' \<mapsto> put_rows (isin (obs_names a) (obs_names dd')) Lc (as_float32 vc))\<rparr>"
  have eqs: "dd' = dd" "cv = D" "Lc = L" using h assms by simp_all
  have vc: "vc = D" using broadcast_aligned[OF h(4)[unfolded eqs] assms(6,7)] .
  have "length (as_float32 D) = length (obs_names dd)"
    using shape_inv_layer_length[OF assms(4,3)] by (simp add: n_obs_def as_float32_def)
  from put_rows_placed[OF assms(6,5) this assms(9)] show ?thesis
    by (simp add: b eqs vc)
qed

lemma merge_expt_places_dn:
  assumes "merge_expt data a k = Inr b" "decay_data data k = Inr dd"
    "denoised_data data k = Inr dn" "shape_inv dn" "obs_names dn = obs_names dd"
    "distinct (obs_names a)" "aligned (obs_names a) (obs_names dd)" "n_vars dn = n_vars a"
    "layers a ''denoised'' = Some L" "length L = length (obs_names a)"
  shows "\<exists>L'. layers b ''denoised'' = Some L' \<and>
              rows_placed (obs_names a) (obs_names dn) (as_float32 (X dn)) L'"
  using assms(1)
proof (rule merge_exptE)
  fix dd' dn' rv cv Ld Lr Lc vd vr vc
  assume h: "decay_data data k = Inr dd'" "denoised_data data k = Inr dn'"
    "layers a ''denoised'' = Some Ld"
    "np_broadcast_to (count_true (isin (obs_names a) (obs_names dd')), n_vars a) (shape dn') (X dn') = Inr vd"
    and b: "b = a\<lparr>layers := (layers a)
           (''denoised'' \<mapsto> put_rows (isin (obs_names a) (obs_names dd')) Ld (as_float32 vd),
            ''rapamycin_velocity'' \<mapsto> put_rows (isin (obs_names a) (obs_names dd')) Lr (as_float32 vr),
            ''cell_cycle_velocity'' \<mapsto> put_rows (isin (obs_names a) (obs_names dd')) Lc (as_float32 vc))\<rparr>"
  have eqs: "dd' = dd" "dn' = dn" "Ld = L" using h assms by simp_all
  have al: "aligned (obs_names a) (obs_names dn)" using assms(5,7) by simp
  have vd: "vd = X dn"
    using broadcast_aligned[OF _ al assms(8)] h(4) by (simp add: eqs assms(5))
  have "length (as_float32 (X dn)) = length (obs_names dn)"
    using shape_inv_X_length[OF assms(4)] by (simp add: n_obs_def as_float32_def)
  from put_rows_placed[OF al assms(6) this assms(10)] show ?thesis
    by (simp add: b eqs vd assms(5))
qed

lemma merged_layers_setup:
  "l \<in> merged_layers \<Longrightarrow>
   layers (layer_setup a) l = Some (np_full_nan (n_obs (layer_setup a)) (n_vars (layer_setup a)))"
  by (auto simp: merged_layers_def layer_setup_def Let_def set_layer_def n_obs_def n_vars_def)

lemma merge_loop_nan_rows:
  assumes ok: "merge_loop data ks (layer_setup a) = Inr b"
    and l: "l \<in> merged_layers" and r: "r < n_obs b" "obs_names b ! r \<notin> covered data ks"
  shows "\<exists>L. layers b l = Some L \<and> L ! r = replicate (n_vars b) NaN"
proof -
  let ?s = "layer_setup a"
  have fr: "obs_names b = obs_names ?s" "var_names b = var_names ?s"
    using merge_loop_frame[OF ok] by simp_all
  then have n: "n_obs b = n_obs ?s" "n_vars b = n_vars ?s"
    by (simp_all add: n_obs_def n_vars_def)
  have "\<exists>L'. layers b l = Some L' \<and> length L' = n_obs ?s \<and>
          L' ! r = np_full_nan (n_obs ?s) (n_vars ?s) ! r"
    using r by (intro merge_loop_untouched[OF ok l merged_layers_setup[OF l]])
               (simp_all add: np_full_nan_def n fr)
  then show ?thesis using r(1) by (auto simp: np_full_nan_def n)
qed

text \<open>
  Claim C1, as the code has it. After the merge loop, started from the store that the layer
  set-up leaves, every row whose identifier belongs to no experiment of the loop still
  holds the not-a-number fill in the three merged layers. For an experiment whose decay
  and denoised products have the width of the store and the same identifiers, which are
  those of the store that belong to the experiment in the order of the store (the store's
  identifiers being distinct), and which shares no identifier with another experiment of
  the loop, every row of the store whose identifier belongs to the experiment holds, in
  \<^verbatim>\<open>rapamycin_velocity\<close>, \<^verbatim>\<open>cell_cycle_velocity\<close> and \<^verbatim>\<open>denoised\<close>, the row that the
  product has for that identifier, converted to single precision: the three layers are
  \<^verbatim>\<open>float32\<close> arrays.
\<close>

theorem merge_rows:
  assumes ok: "merge_loop data ks (layer_setup a) = Inr b"
  shows "(\<forall>r < n_obs b. obs_names b ! r \<notin> covered data ks \<longrightarrow>
            (\<forall>l \<in> merged_layers. \<exists>L. layers b l = Some L \<and> L ! r = replicate (n_vars b) NaN)) \<and>
         (\<forall>k dd dn Drv Dcc.
            k \<in> set ks \<and> decay_data data k = Inr dd \<and> denoised_data data k = Inr dn \<and>
            layers dd ''rapamycin_velocity'' = Some Drv \<and>
            layers dd ''cell_cycle_velocity'' = Some Dcc \<and>
            shape_inv dd \<and> shape_inv dn \<and> n_vars dd = n_vars b \<and> n_vars dn = n_vars b \<and>
            distinct (obs_names b) \<and> aligned (obs_names b) (obs_names dd) \<and>
            obs_names dn = obs_names dd \<and>
            (\<forall>k' \<in> set ks. k' \<noteq> k \<longrightarrow> (\<forall>dd'. decay_data data k' = Inr dd' \<longrightarrow>
                set (obs_names dd') \<inter> set (obs_names dd) = {}))
            \<longrightarrow> (\<exists>Lrv Lcc Ldn.
                  layers b ''rapamycin_velocity'' = Some Lrv \<and>
                  rows_placed (obs_names b) (obs_names dd) (as_float32 Drv) Lrv \<and>
                  layers b ''cell_cycle_velocity'' = Some Lcc \<and>
                  rows_placed (obs_names b) (obs_names dd) (as_float32 Dcc) Lcc \<and>
                  layers b ''denoised'' = Some Ldn \<and>
                  rows_placed (obs_names b) (obs_names dn) (as_float32 (X dn)) Ldn))"
proof (intro conjI allI impI ballI)
  fix r l
  assume "r < n_obs b" "obs_names b ! r \<notin> covered data ks" "l \<in> merged_layers"
  then show "\<exists>L. layers b l = Some L \<and> L ! r = replicate (n_vars b) NaN"
    using merge_loop_nan_rows[OF ok] by blast
next
  fix k dd dn Drv Dcc
  assume h: "k \<in> set ks \<and> decay_data data k = Inr dd \<and> denoised_data data k = Inr dn \<and>
            layers dd ''rapamycin_velocity'' = Some Drv \<and>
            layers dd ''cell_cycle_velocity'' = Some Dcc \<and>
            shape_inv dd \<and> shape_inv dn \<and> n_vars dd = n_vars b \<and> n_vars dn = n_vars b \<and>
            distinct (obs_names b) \<and> aligned (obs_names b) (obs_names dd) \<and>
            obs_names dn = obs_names dd \<and>
            (\<forall>k' \<in> set ks. k' \<noteq> k \<longrightarrow> (\<forall>dd'. decay_data data k' = Inr dd' \<longrightarrow>
                set (obs_names dd') \<inter> set (obs_names dd) = {}))"
  let ?s = "layer_setup a"
  let ?names = "obs_names b"
  have fr: "obs_names ?s = ?names" "n_vars ?s = n_vars b" "n_obs ?s = n_obs b"
    using merge_loop_frame[OF ok] by (simp_all add: n_vars_def n_obs_def)
  have init: "\<And>l. l \<in> merged_layers \<Longrightarrow>
      layers ?s l = Some (np_full_nan (n_obs b) (n_vars b)) \<and>
      length (np_full_nan (n_obs b) (n_vars b)) = length ?names"
    using merged_layers_setup[of _ a] by (simp add: fr np_full_nan_def n_obs_def)
  have disj: "\<forall>k'\<in>set ks. k' \<noteq> k \<longrightarrow>
      (\<forall>dd'. decay_data data k' = Inr dd' \<longrightarrow> set (obs_names dd') \<inter> set (obs_names dd) = {})"
    using h by blast
  have disj_dn: "\<forall>k'\<in>set ks. k' \<noteq> k \<longrightarrow>
      (\<forall>dd'. decay_data data k' = Inr dd' \<longrightarrow> set (obs_names dd') \<inter> set (obs_names dn) = {})"
    using h by simp
  have kin: "k \<in> set ks \<or> rows_placed ?names ids V (np_full_nan (n_obs b) (n_vars b))" for ids V
    using h by simp
  have rv: "\<exists>L'. layers b ''rapamycin_velocity'' = Some L' \<and>
              rows_placed ?names (obs_names dd) (as_float32 Drv) L'"
  proof (rule merge_loop_placed[where k = k and m = "n_vars b" and l = "''rapamycin_velocity''",
        OF _ _ ok fr(1,2) _ _ kin disj])
    show "''rapamycin_velocity'' \<in> merged_layers" by (simp add: merged_layers_def)
    then show "layers ?s ''rapamycin_velocity'' = Some (np_full_nan (n_obs b) (n_vars b))"
      "length (np_full_nan (n_obs b) (n_vars b)) = length ?names"
      using init by simp_all
  next
    fix a' b' L
    assume "merge_expt data a' k = Inr b'" "obs_names a' = ?names" "n_vars a' = n_vars b"
      "layers a' ''rapamycin_velocity'' = Some L" "length L = length ?names"
    then show "\<exists>L'. layers b' ''rapamycin_velocity'' = Some L' \<and>
                 rows_placed ?names (obs_names dd) (as_float32 Drv) L'"
      using h merge_expt_places_rv[of data a' k b' dd Drv L] by simp
  qed
  have cc: "\<exists>L'. layers b ''cell_cycle_velocity'' = Some L' \<and>
              rows_placed ?names (obs_names dd) (as_float32 Dcc) L'"
  proof (rule merge_loop_placed[where k = k and m = "n_vars b" and l = "''cell_cycle_velocity''",
        OF _ _ ok fr(1,2) _ _ kin disj])
    show "''cell_cycle_velocity'' \<in> merged_layers" by (simp add: merged_layers_def)
    then show "layers ?s ''cell_cycle_velocity'' = Some (np_full_nan (n_obs b) (n_vars b))"
      "length (np_full_nan (n_obs b) (n_vars b)) = length ?names"
      using init by simp_all
  next
    fix a' b' L
    assume "merge_expt data a' k = Inr b'" "obs_names a' = ?names" "n_vars a' = n_vars b"
      "layers a' ''cell_cycle_velocity'' = Some L" "length L = length ?names"
    then show "\<exists>L'. layers b' ''cell_cycle_velocity'' = Some L' \<and>
                 rows_placed ?names (obs_names dd) (as_float32 Dcc) L'"
      using h merge_expt_places_cc[of data a' k b' dd Dcc L] by simp
  qed
  have dn: "\<exists>L'. layers b ''denoised'' = Some L' \<and>
              rows_placed ?names (obs_names dn) (as_float32 (X dn)) L'"
  proof (rule merge_loop_placed[where k = k and m = "n_vars b" and l = "''denoised''",
        OF _ _ ok fr(1,2) _ _ kin disj_dn])
    show "''denoised'' \<in> merged_layers" by (simp add: merged_layers_def)
    then show "layers ?s ''denoised'' = Some (np_full_nan (n_obs b) (n_vars b))"
      "length (np_full_nan (n_obs b) (n_vars b)) = length ?names"
      using init by simp_all
  next
    fix a' b' L
    assume "merge_expt data a' k = Inr b'" "obs_names a' = ?names" "n_vars a' = n_vars b"
      "layers a' ''denoised'' = Some L" "length L = length ?names"
    then show "\<exists>L'. layers b' ''denoised'' = Some L' \<and>
                 rows_placed ?names (obs_names dn) (as_float32 (X dn)) L'"
      using h merge_expt_places_dn[of data a' k b' dd dn L] by simp
  qed
  from rv cc dn show "\<exists>Lrv Lcc Ldn.
      layers b ''rapamycin_velocity'' = Some Lrv \<and>
      rows_placed (obs_names b) (obs_names dd) (as_float32 Drv) Lrv \<and>
      layers b ''cell_cycle_velocity'' = Some Lcc \<and>
      rows_placed (obs_names b) (obs_names dd) (as_float32 Dcc) Lcc \<and>
      layers b ''denoised'' = Some Ldn \<and>
      rows_placed (obs_names b) (obs_names dn) (as_float32 (X dn)) Ldn"
    by blast
qed

lemma sum_is_Inr: "\<not> isl x \<Longrightarrow> x = Inr (projr x)"
  by (cases x) simp_all

lemma shape_inv_small_product:
  "length M = length ids \<Longrightarrow> list_all (\<lambda>row. length row = 1) M \<Longrightarrow>
   (\<forall>name L. ls name = Some L \<longrightarrow> length L = length ids \<and> list_all (\<lambda>row. length row = 1) L) \<Longrightarrow>
   shape_inv (small_product ids M ls)"
  by (simp add: shape_inv_def small_product_def wf_matrix_def n_obs_def n_vars_def)

theorem merge_rows_witness:
  "merge_loop small_data [0] (layer_setup small_store) = Inr small_merged \<and>
   distinct (obs_names small_merged) \<and>
   aligned (obs_names small_merged) (obs_names small_decay) \<and>
   obs_names small_merged ! 1 \<notin> covered small_data [0] \<and>
   (\<exists>L. layers small_merged ''rapamycin_velocity'' = Some L \<and>
        L ! 1 = replicate (n_vars small_merged) NaN) \<and>
   (\<exists>L. layers small_merged ''rapamycin_velocity'' = Some L \<and>
        rows_placed (obs_names small_merged) (obs_names small_decay)
          (as_float32 [[Fin (1 / 2)], [Fin (3 / 2)]]) L) \<and>
   as_float32 [[Fin (1 / 2)], [Fin (3 / 2)]] = [[Fin (1 / 2)], [Fin (3 / 2)]]"
proof -
  have "\<not> isl (merge_loop small_data [0] (layer_setup small_store))"
    by code_simp
  then have ok: "merge_loop small_data [0] (layer_setup small_store) = Inr small_merged"
    unfolding small_merged_def by (rule sum_is_Inr)
  have names: "obs_names small_merged = [''c0'', ''c1'', ''c2'']"
    by code_simp
  have width: "var_names small_merged = [''g0'']"
    by code_simp
  have dist: "distinct (obs_names small_merged)"
    by (simp add: names)
  have al: "aligned (obs_names small_merged) (obs_names small_decay)"
    by (simp add: names aligned_def small_decay_def small_product_def)
  have cov: "obs_names small_merged ! 1 \<notin> covered small_data [0]"
    by (simp add: names covered_def small_data_def small_decay_def small_product_def)
  have inv: "shape_inv small_decay" "shape_inv small_denoised"
    unfolding small_decay_def small_denoised_def
    by (rule shape_inv_small_product; simp)+
  have prod: "decay_data small_data 0 = Inr small_decay"
    "denoised_data small_data 0 = Inr small_denoised"
    "layers small_decay ''rapamycin_velocity'' = Some [[Fin (1 / 2)], [Fin (3 / 2)]]"
    "layers small_decay ''cell_cycle_velocity'' = Some [[Fin (1 / 4)], [Fin (3 / 4)]]"
    "n_vars small_decay = n_vars small_merged" "n_vars small_denoised = n_vars small_merged"
    "obs_names small_denoised = obs_names small_decay"
    by (simp_all add: width small_data_def small_decay_def small_denoised_def small_product_def
          n_vars_def)
  note mr = merge_rows[OF ok]
  have nan: "\<exists>L. layers small_merged ''rapamycin_velocity'' = Some L \<and>
        L ! 1 = replicate (n_vars small_merged) NaN"
    using mr cov by (simp add: names n_obs_def merged_layers_def)
  have "\<exists>Lrv Lcc Ldn.
      layers small_merged ''rapamycin_velocity'' = Some Lrv \<and>
      rows_placed (obs_names small_merged) (obs_names small_decay) (as_float32 [[Fin (1 / 2)], [Fin (3 / 2)]]) Lrv \<and>
      layers small_merged ''cell_cycle_velocity'' = Some Lcc \<and>
      rows_placed (obs_names small_merged) (obs_names small_decay) (as_float32 [[Fin (1 / 4)], [Fin (3 / 4)]]) Lcc \<and>
      layers small_merged ''denoised'' = Some Ldn \<and>
      rows_placed (obs_names small_merged) (obs_names small_denoised) (as_float32 (X small_denoised)) Ldn"
    using mr inv prod dist al
    by (elim conjE allE[where x = "0::nat"] allE[where x = small_decay]
          allE[where x = small_denoised]) simp
  moreover have "as_float32 [[Fin (1 / 2)], [Fin (3 / 2)]] = [[Fin (1 / 2)], [Fin (3 / 2)]]"
    by code_simp
  ultimately show ?thesis using ok dist al cov nan by blast
qed

text \<open>
  Claim C1 as the specification states it, without the condition on the order, fails: the
  experiment lists \<open>c2\<close> before \<open>c0\<close>, and the store's row of \<open>c0\<close> receives the row that
  the product has for \<open>c2\<close>.
\<close>

theorem merge_rows_counterexample:
  "\<not> isl (merge_loop swapped_data [0] (layer_setup small_store)) \<and>
   obs_names swapped_merged ! 0 = ''c0'' \<and>
   ''c0'' \<in> set (obs_names swapped_decay) \<and>
   layers swapped_decay ''rapamycin_velocity'' = Some [[Fin (1 / 2)], [Fin (3 / 2)]] \<and>
   map_of (zip (obs_names swapped_decay) [[Fin (1 / 2)], [Fin (3 / 2)]]) ''c0'' = Some [Fin (3 / 2)] \<and>
   layers swapped_merged ''rapamycin_velocity'' = Some [[Fin (1 / 2)], [NaN], [Fin (3 / 2)]] \<and>
   \<not> rows_placed (obs_names swapped_merged) (obs_names swapped_decay)
       [[Fin (1 / 2)], [Fin (3 / 2)]] [[Fin (1 / 2)], [NaN], [Fin (3 / 2)]]"
proof -
  have a: "\<not> isl (merge_loop swapped_data [0] (layer_setup small_store))"
    by code_simp
  have b: "obs_names swapped_merged = [''c0'', ''c1'', ''c2'']"
    by code_simp
  have c: "layers swapped_merged ''rapamycin_velocity'' = Some [[Fin (1 / 2)], [NaN], [Fin (3 / 2)]]"
    by code_simp
  have d: "obs_names swapped_decay = [''c2'', ''c0'']"
    "layers swapped_decay ''rapamycin_velocity'' = Some [[Fin (1 / 2)], [Fin (3 / 2)]]"
    by (simp_all add: swapped_decay_def small_product_def)
  have "\<not> rows_placed [''c0'', ''c1'', ''c2''] [''c2'', ''c0'']
       [[Fin (1 / 2)], [Fin (3 / 2)]] [[Fin (1 / 2)], [NaN], [Fin (3 / 2)]]"
    unfolding rows_placed_def by (simp add: exI[where x = 0])
  then show ?thesis using a by (simp add: b c d)
qed

lemma merge_loop_single: "merge_loop data [k] a = merge_expt data a k"
  by (cases "merge_expt data a k") (simp_all add: ebind_def)

lemma small_stages:
  "base_construction (all_data small_data) = Inr small_base"
  "merge_loop small_data (expts small_data) (layer_setup small_base) = Inr small_b"
  "wt_filter small_b = Inr small_c"
  "add_transcription ''rapamycin_velocity'' ''rapamycin_transcription'' small_c = Inr small_d"
  "add_transcription ''cell_cycle_velocity'' ''cell_cycle_transcription'' small_d = Inr small_e"
proof -
  have "\<not> isl (base_construction small_source)"
    by code_simp
  then show "base_construction (all_data small_data) = Inr small_base"
    unfolding small_base_def by (simp add: small_data_def)
  have "\<not> isl (merge_loop small_data (expts small_data) (layer_setup small_base))"
    by code_simp
  then show "merge_loop small_data (expts small_data) (layer_setup small_base) = Inr small_b"
    unfolding small_b_def by (rule sum_is_Inr)
  have "\<not> isl (wt_filter small_b)"
    by code_simp
  then show "wt_filter small_b = Inr small_c"
    unfolding small_c_def by (rule sum_is_Inr)
  have "\<not> isl (add_transcription ''rapamycin_velocity'' ''rapamycin_transcription'' small_c)"
    by code_simp
  then show "add_transcription ''rapamycin_velocity'' ''rapamycin_transcription'' small_c = Inr small_d"
    unfolding small_d_def by (rule sum_is_Inr)
  have "\<not> isl (add_transcription ''cell_cycle_velocity'' ''cell_cycle_transcription'' small_d)"
    by code_simp
  then show "add_transcription ''cell_cycle_velocity'' ''cell_cycle_transcription'' small_d = Inr small_e"
    unfolding small_e_def by (rule sum_is_Inr)
qed

lemma data_packager_small: "data_packager small_data = Inr (trim small_e)"
  by (simp add: data_packager_def small_stages ebind_Inr)

text \<open>
  Claim C3. The specification has the decay constants of every experiment merged into the
  layer \<^verbatim>\<open>decay_constants\<close> by the loop, and the comment at line 75 says that decay
  constants are copied from the calculated data objects. The loop does not do it. On the
  example, the decay product of the experiment holds the decay constant 7 for the
  observations \<open>c0\<close> and \<open>c2\<close>; after the loop, and in the store that the pipeline
  returns, their rows of \<^verbatim>\<open>decay_constants\<close> hold the constant 1 of the source object.
\<close>

theorem decay_constants_evaluation:
  "\<not> isl (merge_loop small_data [0] (layer_setup small_store)) \<and>
   obs_names small_merged = [''c0'', ''c1'', ''c2''] \<and>
   obs_names small_decay = [''c0'', ''c2''] \<and>
   layers small_decay ''decay_constants'' = Some [[Fin 7], [Fin 7]] \<and>
   layers small_merged ''decay_constants'' = Some [[Fin 1], [Fin 1], [Fin 1]] \<and>
   obs_names small_merged ! 0 = ''c0'' \<and>
   map_of (zip (obs_names small_decay) [[Fin 7], [Fin 7]]) ''c0'' = Some [Fin 7] \<and>
   the (layers small_merged ''decay_constants'') ! 0 = [Fin 1] \<and>
   data_packager small_data = Inr (trim small_e) \<and>
   obs_names (trim small_e) = [''c0'', ''c2''] \<and>
   layers (trim small_e) ''decay_constants'' = Some [[Fin 1], [Fin 1]]"
proof -
  have a: "\<not> isl (merge_loop small_data [0] (layer_setup small_store))"
    by code_simp
  have b: "obs_names small_merged = [''c0'', ''c1'', ''c2'']"
    by code_simp
  have c: "layers small_merged ''decay_constants'' = Some [[Fin 1], [Fin 1], [Fin 1]]"
    by code_simp
  have d: "obs_names small_decay = [''c0'', ''c2'']"
    "layers small_decay ''decay_constants'' = Some [[Fin 7], [Fin 7]]"
    by (simp_all add: small_decay_def small_product_def)
  note data_packager_small
  moreover have "obs_names (trim small_e) = [''c0'', ''c2'']"
    "layers (trim small_e) ''decay_constants'' = Some [[Fin 1], [Fin 1]]"
    by code_simp+
  ultimately show ?thesis using a by (simp add: b c d)
qed

lemma rank_less:
  "r < length msk \<Longrightarrow> msk ! r \<Longrightarrow> count_true (take r msk) < count_true msk"
proof (induction msk arbitrary: r)
  case Nil
  then show ?case by simp
next
  case (Cons b bs)
  then show ?case by (cases r) (auto simp: count_true_def)
qed

lemma filter_nth_position:
  "i < length (filter P xs) \<Longrightarrow>
   \<exists>r < length xs. P (xs ! r) \<and> length (filter P (take r xs)) = i \<and> filter P xs ! i = xs ! r"
proof (induction xs arbitrary: i)
  case Nil
  then show ?case by simp
next
  case (Cons x xs)
  show ?case
  proof (cases "P x")
    case True
    show ?thesis
    proof (cases i)
      case 0
      then show ?thesis using True by (intro exI[where x = 0]) simp
    next
      case (Suc i')
      then have "i' < length (filter P xs)" using Cons.prems True by simp
      from Cons.IH[OF this] obtain r where "r < length xs" "P (xs ! r)"
        "length (filter P (take r xs)) = i'" "filter P xs ! i' = xs ! r"
        by blast
      then show ?thesis using True Suc by (intro exI[where x = "Suc r"]) simp
    qed
  next
    case False
    then have "i < length (filter P xs)" using Cons.prems by simp
    from Cons.IH[OF this] obtain r where "r < length xs" "P (xs ! r)"
      "length (filter P (take r xs)) = i" "filter P xs ! i = xs ! r"
      by blast
    then show ?thesis using False by (intro exI[where x = "Suc r"]) simp
  qed
qed

lemma map_of_zip_SomeD:
  assumes "map_of (zip ids V) x = Some v"
  shows "\<exists>j. j < length ids \<and> j < length V \<and> ids ! j = x \<and> V ! j = v"
proof -
  have "(x, v) \<in> set (zip ids V)" using assms by (rule map_of_SomeD)
  then show ?thesis by (auto simp: in_set_zip)
qed

lemma put_rows_selected_placed:
  assumes ids: "ids = filter (\<lambda>n. n \<in> set sel) names" and "distinct names"
    and "length V = length ids" "length L = length names"
  shows "selected_placed names sel ids V (put_rows (isin names sel) L V)"
proof -
  have mem: "(n \<in> set sel) = (n \<in> set ids)" if "n \<in> set names" for n
    using that by (simp add: ids)
  then have same: "isin names sel = isin names ids"
    by (simp add: isin_def)
  have "filter (\<lambda>n. n \<in> set ids) names = filter (\<lambda>n. n \<in> set sel) names"
    using mem by (intro filter_cong) simp_all
  then have al: "aligned names ids" by (simp add: aligned_def ids[symmetric])
  from put_rows_placed[OF al assms(2,3,4)]
  have "rows_placed names ids V (put_rows (isin names sel) L V)" by (simp add: same)
  then show ?thesis
    using mem by (simp add: rows_placed_def selected_placed_def)
qed

lemma selected_placed_only_if:
  assumes pl: "selected_placed names sel ids V (put_rows (isin names sel) L V)"
    and "distinct V" "length V = count_true (isin names sel)" "length ids = length V"
    and "length L = length names"
  shows "ids = filter (\<lambda>n. n \<in> set sel) names"
proof (rule nth_equalityI)
  let ?P = "\<lambda>n. n \<in> set sel"
  have k: "count_true (isin names sel) = length (filter ?P names)"
    by (simp add: isin_def count_true_map)
  show len: "length ids = length (filter ?P names)"
    using assms(3,4) k by simp
  fix i
  assume i: "i < length ids"
  then have "i < length (filter ?P names)" using len by simp
  from filter_nth_position[OF this] obtain r where r: "r < length names" "names ! r \<in> set sel"
    "length (filter ?P (take r names)) = i" "filter ?P names ! i = names ! r"
    by blast
  have rank: "count_true (take r (isin names sel)) = i"
    using r(3) by (simp add: isin_def take_map count_true_map)
  have "put_rows (isin names sel) L V ! r = V ! count_true (take r (isin names sel))"
    using r(1,2) assms(3,5)
    by (intro put_rows_flagged) (simp_all add: length_isin isin_nth)
  then have "map_of (zip ids V) (names ! r) = Some (V ! i)"
    using pl r(1,2) by (simp add: selected_placed_def rank)
  from map_of_zip_SomeD[OF this] obtain j where j: "j < length V" "ids ! j = names ! r"
    "V ! j = V ! i"
    by blast
  have "j = i"
    using j(1,3) i assms(2,4) by (simp add: nth_eq_iff_index_eq)
  then show "ids ! i = filter ?P names ! i"
    using j(2) r(4) by simp
qed

text \<open>
  Claim C10, as the code has it. In the loop body the matrix of the denoised product goes,
  converted to single precision, to the rows that the identifiers of the decay product
  select, in the row order of the store. The step fails with a shape mismatch when the
  denoised product's row count is neither the number of selected rows nor one (a matrix of
  one row is broadcast). When the counts agree, every selected row holds the denoised row
  of its own identifier if the denoised product lists exactly the selected observations in
  the order of the store, and, the rows of the denoised matrix being pairwise different,
  only if it does.
\<close>

theorem denoised_positional:
  assumes "decay_data data k = Inr dd" "denoised_data data k = Inr dn"
    and "layers a ''denoised'' = Some L"
  shows "(n_obs dn \<noteq> count_true (isin (obs_names a) (obs_names dd)) \<and> n_obs dn \<noteq> 1 \<longrightarrow>
            merge_expt data a k = Inl (ValueError ''shape mismatch'')) \<and>
         (\<forall>b. merge_expt data a k = Inr b \<and>
              n_obs dn = count_true (isin (obs_names a) (obs_names dd)) \<and> n_vars dn = n_vars a \<longrightarrow>
              layers b ''denoised'' =
                Some (put_rows (isin (obs_names a) (obs_names dd)) L (as_float32 (X dn)))) \<and>
         (\<forall>b. merge_expt data a k = Inr b \<and> shape_inv dn \<and> n_vars dn = n_vars a \<and>
              length L = n_obs a \<and> distinct (obs_names a) \<and>
              obs_names dn = filter (\<lambda>n. n \<in> set (obs_names dd)) (obs_names a) \<longrightarrow>
              (\<exists>L'. layers b ''denoised'' = Some L' \<and>
                    selected_placed (obs_names a) (obs_names dd) (obs_names dn)
                      (as_float32 (X dn)) L')) \<and>
         (\<forall>b L'. merge_expt data a k = Inr b \<and> shape_inv dn \<and> n_vars dn = n_vars a \<and>
              n_obs dn = count_true (isin (obs_names a) (obs_names dd)) \<and>
              length L = n_obs a \<and> distinct (as_float32 (X dn)) \<and>
              layers b ''denoised'' = Some L' \<and>
              selected_placed (obs_names a) (obs_names dd) (obs_names dn) (as_float32 (X dn)) L' \<longrightarrow>
              obs_names dn = filter (\<lambda>n. n \<in> set (obs_names dd)) (obs_names a))"
proof -
  let ?idx = "isin (obs_names a) (obs_names dd)"
  have fail: "merge_expt data a k = Inl (ValueError ''shape mismatch'')"
    if "n_obs dn \<noteq> count_true ?idx \<and> n_obs dn \<noteq> 1"
    using that assms
    by (simp add: merge_expt_def ebind_def assign_layer_rows_def lookup_def mask_assign_def
        np_broadcast_to_def shape_def)
  have pos: "layers b ''denoised'' = Some (put_rows ?idx L (as_float32 (X dn)))"
    if step: "merge_expt data a k = Inr b" and n: "n_obs dn = count_true ?idx" "n_vars dn = n_vars a"
    for b
    using step
  proof (rule merge_exptE)
    fix dd' dn' :: anndata and rv cv Ld Lr Lc vd vr vc
    assume e: "decay_data data k = Inr dd'" "denoised_data data k = Inr dn'"
      "layers a ''denoised'' = Some Ld"
      "np_broadcast_to (count_true (isin (obs_names a) (obs_names dd')), n_vars a) (shape dn') (X dn') = Inr vd"
      and b: "b = a\<lparr>layers := (layers a)
           (''denoised'' \<mapsto> put_rows (isin (obs_names a) (obs_names dd')) Ld (as_float32 vd),
            ''rapamycin_velocity'' \<mapsto> put_rows (isin (obs_names a) (obs_names dd')) Lr (as_float32 vr),
            ''cell_cycle_velocity'' \<mapsto> put_rows (isin (obs_names a) (obs_names dd')) Lc (as_float32 vc))\<rparr>"
    have eqs: "dd' = dd" "dn' = dn" "Ld = L" using e assms by simp_all
    have "vd = X dn"
      using e(4) n by (simp add: eqs shape_def np_broadcast_to_same)
    then show ?thesis by (simp add: b eqs)
  qed
  have lens: "length (as_float32 (X dn)) = length (obs_names dn)" if "shape_inv dn"
    using shape_inv_X_length[OF that] by (simp add: n_obs_def length_as_float32)
  have suff: "\<exists>L'. layers b ''denoised'' = Some L' \<and>
      selected_placed (obs_names a) (obs_names dd) (obs_names dn) (as_float32 (X dn)) L'"
    if step: "merge_expt data a k = Inr b" and inv: "shape_inv dn" and m: "n_vars dn = n_vars a"
      and l: "length L = n_obs a" and d: "distinct (obs_names a)"
      and ids: "obs_names dn = filter (\<lambda>n. n \<in> set (obs_names dd)) (obs_names a)"
    for b
  proof -
    have "n_obs dn = count_true ?idx"
      by (simp add: n_obs_def ids isin_def count_true_map)
    from pos[OF step this m] put_rows_selected_placed[OF ids d lens[OF inv]] l
    show ?thesis by (simp add: n_obs_def)
  qed
  have nec: "obs_names dn = filter (\<lambda>n. n \<in> set (obs_names dd)) (obs_names a)"
    if step: "merge_expt data a k = Inr b" and inv: "shape_inv dn" and m: "n_vars dn = n_vars a"
      and n: "n_obs dn = count_true ?idx" and l: "length L = n_obs a"
      and d: "distinct (as_float32 (X dn))" and la: "layers b ''denoised'' = Some L'"
      and pl: "selected_placed (obs_names a) (obs_names dd) (obs_names dn) (as_float32 (X dn)) L'"
    for b L'
  proof -
    have L': "L' = put_rows ?idx L (as_float32 (X dn))"
      using pos[OF step n m] la by simp
    show ?thesis
      using pl lens[OF inv] n l unfolding L'
      by (intro selected_placed_only_if[OF _ d]) (simp_all add: n_obs_def)
  qed
  show ?thesis
    using fail pos suff nec by blast
qed

theorem denoised_positional_witness:
  "merge_expt triple_data (layer_setup small_store) 0 = Inl (ValueError ''shape mismatch'') \<and>
   merge_expt small_data (layer_setup small_store) 0 = Inr small_merged \<and>
   layers small_merged ''denoised'' =
     Some (put_rows [True, False, True] (np_full_nan 3 1) (as_float32 [[Fin 1], [Fin 2]])) \<and>
   distinct (as_float32 [[Fin 1], [Fin 2]]) \<and>
   selected_placed [''c0'', ''c1'', ''c2''] [''c0'', ''c2''] [''c0'', ''c2'']
     (as_float32 [[Fin 1], [Fin 2]])
     (put_rows [True, False, True] (np_full_nan 3 1) (as_float32 [[Fin 1], [Fin 2]])) \<and>
   obs_names small_denoised = filter (\<lambda>n. n \<in> set [''c0'', ''c2'']) [''c0'', ''c1'', ''c2'']"
proof -
  let ?a = "layer_setup small_store"
  let ?V = "as_float32 [[Fin 1], [Fin 2]]"
  let ?L' = "put_rows [True, False, True] (np_full_nan 3 1) ?V"
  have names: "obs_names ?a = [''c0'', ''c1'', ''c2'']" "var_names ?a = [''g0'']"
    by code_simp+
  have lay: "layers ?a ''denoised'' = Some (np_full_nan 3 1)"
    using merged_layers_setup[of "''denoised''" small_store]
    by (simp add: merged_layers_def n_obs_def n_vars_def names eval_nat_numeral)
  have idx: "isin (obs_names ?a) (obs_names small_decay) = [True, False, True]"
    by (simp add: names isin_def small_decay_def small_product_def)
  have fail: "merge_expt triple_data ?a 0 = Inl (ValueError ''shape mismatch'')"
    using denoised_positional[of triple_data 0 small_decay
        "small_product [''c0'', ''c1'', ''c2''] [[Fin 1], [Fin 0], [Fin 2]] Map.empty"
        ?a "np_full_nan 3 1", THEN conjunct1] lay
    by (simp add: triple_data_def idx count_true_def n_obs_def small_product_def)
  have "\<not> isl (merge_loop small_data [0] ?a)"
    by code_simp
  then have "merge_loop small_data [0] ?a = Inr small_merged"
    unfolding small_merged_def by (rule sum_is_Inr)
  then have ok: "merge_expt small_data ?a 0 = Inr small_merged"
    by (simp only: merge_loop_single)
  have inv: "shape_inv small_denoised"
    unfolding small_denoised_def by (rule shape_inv_small_product; simp)
  have pre: "decay_data small_data 0 = Inr small_decay"
    "denoised_data small_data 0 = Inr small_denoised"
    by (simp_all add: small_data_def)
  note dp = denoised_positional[OF pre lay]
  have sh: "n_obs small_denoised = 2" "n_vars small_denoised = n_vars ?a"
    "X small_denoised = [[Fin 1], [Fin 2]]"
    "obs_names small_denoised = [''c0'', ''c2'']" "obs_names small_decay = [''c0'', ''c2'']"
    "n_obs ?a = 3"
    by (simp_all add: small_denoised_def small_decay_def small_product_def n_obs_def n_vars_def
        names)
  have cnt: "count_true (isin (obs_names ?a) (obs_names small_decay)) = 2"
    by (simp add: idx count_true_def)
  have pos: "layers small_merged ''denoised'' = Some ?L'"
    using dp[THEN conjunct2, THEN conjunct1, rule_format, of small_merged] ok sh(1,2) cnt
    by (simp add: idx sh(3))
  have dist: "distinct ?V"
    by code_simp
  have suff: "selected_placed [''c0'', ''c1'', ''c2''] [''c0'', ''c2''] [''c0'', ''c2''] ?V ?L'"
    using dp[THEN conjunct2, THEN conjunct2, THEN conjunct1, rule_format, of small_merged]
      ok inv sh pos
    by (simp add: names np_full_nan_def)
  have nec: "obs_names small_denoised = filter (\<lambda>n. n \<in> set [''c0'', ''c2'']) [''c0'', ''c1'', ''c2'']"
    using dp[THEN conjunct2, THEN conjunct2, THEN conjunct2, rule_format, of small_merged ?L']
      ok inv sh(1,2,3,6) cnt pos dist suff
    by (simp add: names np_full_nan_def sh(4,5))
  show ?thesis using fail ok pos dist suff nec by simp
qed

text \<open>
  Claim C10 as the specification states it fails in its last part: the mask selects two
  rows and the denoised product has one, yet the step succeeds, and both selected rows
  receive the one row.
\<close>

theorem denoised_positional_counterexample:
  "count_true (isin (obs_names (layer_setup small_store)) (obs_names small_decay)) = 2 \<and>
   n_obs (small_product [''c0''] [[Fin 9]] Map.empty) = 1 \<and>
   decay_data single_data 0 = Inr small_decay \<and>
   denoised_data single_data 0 = Inr (small_product [''c0''] [[Fin 9]] Map.empty) \<and>
   \<not> isl (merge_expt single_data (layer_setup small_store) 0) \<and>
   layers (projr (merge_expt single_data (layer_setup small_store) 0)) ''denoised'' =
     Some [[Fin 9], [NaN], [Fin 9]]"
proof -
  have a: "count_true (isin (obs_names (layer_setup small_store)) (obs_names small_decay)) = 2"
    by code_simp
  have b: "\<not> isl (merge_expt single_data (layer_setup small_store) 0)"
    by code_simp
  have c: "layers (projr (merge_expt single_data (layer_setup small_store) 0)) ''denoised'' =
     Some [[Fin 9], [NaN], [Fin 9]]"
    by code_simp
  show ?thesis using a b c by (simp add: single_data_def small_product_def n_obs_def)
qed

lemma select_Nil2: "select bs [] = []"
  by (cases bs) simp_all

lemma select_zip: "select bs (zip xs ys) = zip (select bs xs) (select bs ys)"
proof (induction bs arbitrary: xs ys)
  case Nil
  then show ?case by simp
next
  case (Cons b bs)
  show ?case
  proof (cases xs)
    case Nil
    then show ?thesis by simp
  next
    case xs: (Cons x xs')
    show ?thesis
    proof (cases ys)
      case Nil
      then show ?thesis by (simp add: xs select_Nil2)
    next
      case (Cons y ys')
      then show ?thesis by (simp add: xs Cons.IH)
    qed
  qed
qed

lemma select_map: "select bs (map f xs) = map f (select bs xs)"
  by (induction bs xs rule: select.induct) simp_all

lemma select_map2: "select bs (map2 f xs ys) = map2 f (select bs xs) (select bs ys)"
  by (simp add: select_map select_zip)

lemma select_replicate:
  "length bs \<le> m \<Longrightarrow> select bs (replicate m x) = replicate (count_true bs) x"
proof (induction bs arbitrary: m)
  case Nil
  then show ?case by (simp add: count_true_def)
next
  case (Cons b bs)
  then obtain m' where m: "m = Suc m'" by (cases m) auto
  with Cons show ?case by (simp add: count_true_def)
qed

lemma length_select: "length bs \<le> length xs \<Longrightarrow> length (select bs xs) = count_true bs"
  by (induction bs xs rule: select.induct) (simp_all add: count_true_def)

lemma foldl_select:
  "foldl (map2 f) (select bs acc) (map (select bs) A) = select bs (foldl (map2 f) acc A)"
proof (induction A arbitrary: acc)
  case Nil
  then show ?case by simp
next
  case (Cons r A)
  have "map2 f (select bs acc) (select bs r) = select bs (map2 f acc r)"
    by (simp only: select_map2)
  then show ?case using Cons.IH[of "map2 f acc r"] by simp
qed

lemma length_foldl_map2: "length (foldl (map2 f) acc A) \<le> length acc"
proof (induction A arbitrary: acc)
  case Nil
  then show ?case by simp
next
  case (Cons r A)
  have "length (foldl (map2 f) (map2 f acc r) A) \<le> length (map2 f acc r)"
    by (rule Cons.IH)
  then show ?case by simp
qed

lemma length_colsums: "length (colsums m A) \<le> m"
  using length_foldl_map2[of fadd "replicate m (Fin 0)" A] by (simp add: colsums_def)

lemma colsums_select:
  "length bs \<le> m \<Longrightarrow> colsums (count_true bs) (map (select bs) A) = select bs (colsums m A)"
  by (simp add: colsums_def foldl_select[symmetric] select_replicate)

lemma length_has_expression: "length (has_expression a) \<le> n_vars a"
  by (simp add: has_expression_def length_colsums)

lemma select_self: "list_all id (select bs bs)"
  by (induction bs) simp_all

lemma has_expression_subset:
  "has_expression (subset_var (has_expression a) a) = select (has_expression a) (has_expression a)"
proof -
  let ?he = "has_expression a"
  let ?b = "subset_var ?he a"
  have len: "length ?he \<le> length (var_names a)"
    using length_has_expression[of a] by (simp add: n_vars_def)
  have nv: "n_vars ?b = count_true ?he"
    by (simp add: subset_var_def n_vars_def length_select[OF len])
  have xb: "X ?b = map (select ?he) (X a)"
    by (simp add: subset_var_def)
  have cs: "colsums (n_vars ?b) (X ?b) = select ?he (colsums (n_vars a) (X a))"
    unfolding nv xb using len by (intro colsums_select) (simp add: n_vars_def)
  have "has_expression ?b = map (\<lambda>s. fgt s (Fin 0)) (select ?he (colsums (n_vars a) (X a)))"
    unfolding has_expression_def[of ?b] cs ..
  also have "\<dots> = select ?he (map (\<lambda>s. fgt s (Fin 0)) (colsums (n_vars a) (X a)))"
    by (simp only: select_map)
  finally show ?thesis by (simp only: has_expression_def[symmetric])
qed

lemma has_expression_trim: "list_all id (has_expression (trim a))"
  by (simp add: trim_def has_expression_subset select_self)

lemma fgt_zero_nonzero: "fgt s (Fin 0) \<Longrightarrow> s \<noteq> Fin 0"
  by (cases s) (simp_all add: fgt_def feq_def)

text \<open>
  Claim C6. Step 7 is \<open>trim\<close>, applied to the cohort-filtered store. Whatever the store,
  every feature that the trim retains has a column sum of the primary matrix, over the rows
  of the store, that is greater than zero and so not zero, and a second trim changes
  nothing.
\<close>

theorem trim_retains_expressed:
  "trim (trim a) = trim a \<and>
   list_all (\<lambda>s. fgt s (Fin 0) \<and> s \<noteq> Fin 0) (colsums (n_vars (trim a)) (X (trim a)))"
proof
  show "trim (trim a) = trim a"
    using has_expression_trim[of a] by (simp add: trim_def[of "trim a"])
  have "list_all (\<lambda>s. fgt s (Fin 0)) (colsums (n_vars (trim a)) (X (trim a)))"
    using has_expression_trim[of a] by (simp add: has_expression_def list_all_iff)
  then show "list_all (\<lambda>s. fgt s (Fin 0) \<and> s \<noteq> Fin 0) (colsums (n_vars (trim a)) (X (trim a)))"
    by (simp add: list_all_iff fgt_zero_nonzero)
qed

section \<open>The shape invariant through the stages\<close>

lemma list_all_select: "list_all P xs \<Longrightarrow> list_all P (select bs xs)"
  by (induction bs xs rule: select.induct) simp_all

lemma wf_matrix_select:
  "wf_matrix n m A \<Longrightarrow> length bs = n \<Longrightarrow> wf_matrix (count_true bs) m (select bs A)"
  by (simp add: wf_matrix_def length_select list_all_select)

lemma shape_inv_subset_obs:
  assumes "shape_inv a" "length bs = n_obs a"
  shows "shape_inv (subset_obs bs a)"
proof -
  have n: "n_obs (subset_obs bs a) = count_true bs" "n_vars (subset_obs bs a) = n_vars a"
    using assms(2) by (simp_all add: subset_obs_def n_obs_def n_vars_def length_select)
  have x: "wf_matrix (count_true bs) (n_vars a) (X (subset_obs bs a))"
    using assms by (auto simp: subset_obs_def shape_inv_def intro!: wf_matrix_select)
  have l: "wf_matrix (count_true bs) (n_vars a) L" if "layers (subset_obs bs a) name = Some L"
    for name L
  proof -
    from that obtain L0 where "layers a name = Some L0" "L = select bs L0"
      by (auto simp: subset_obs_def)
    then show ?thesis using assms by (auto simp: shape_inv_def intro!: wf_matrix_select)
  qed
  have c: "length col = count_true bs" if "obs (subset_obs bs a) k = Some col" for k col
  proof -
    from that obtain c0 where "obs a k = Some c0" "col = select bs c0"
      by (auto simp: subset_obs_def)
    then show ?thesis using assms by (simp add: shape_inv_def length_select)
  qed
  show ?thesis unfolding shape_inv_def n using x l c by blast
qed

lemma length_scale_row: "length (scale_row d row) = length row"
  by (simp add: scale_row_def)

lemma length_cell_divisors: "length (cell_divisors xs) = length xs"
  by (simp add: cell_divisors_def Let_def)

lemma wf_matrix_scale:
  "wf_matrix n m A \<Longrightarrow> length ds = n \<Longrightarrow> wf_matrix n m (map2 scale_row ds A)"
  by (auto simp: wf_matrix_def list_all_iff length_scale_row dest!: set_zip_rightD)

lemma shape_inv_X_update:
  "shape_inv a \<Longrightarrow> wf_matrix (n_obs a) (n_vars a) A \<Longrightarrow> shape_inv (a\<lparr>X := A\<rparr>)"
  by (simp add: shape_inv_def n_obs_def n_vars_def)

lemma shape_inv_obs_update:
  "shape_inv a \<Longrightarrow> length col = n_obs a \<Longrightarrow> shape_inv (a\<lparr>obs := (obs a)(c \<mapsto> col)\<rparr>)"
  by (simp add: shape_inv_def n_obs_def n_vars_def)

lemma shape_inv_set_layer:
  "shape_inv a \<Longrightarrow> wf_matrix (n_obs a) (n_vars a) L \<Longrightarrow> shape_inv (set_layer name L a)"
  by (simp add: shape_inv_def set_layer_def n_obs_def n_vars_def)

lemma shape_inv_normalize:
  assumes "shape_inv a"
  shows "shape_inv (normalize_per_cell mc a)"
proof -
  let ?totals = "map fsum (X a)"
  let ?sub = "map (\<lambda>t. fge t mc) ?totals"
  let ?a1 = "a\<lparr>obs := (obs a)(''n_counts'' \<mapsto> map F ?totals)\<rparr>"
  let ?a2 = "subset_obs ?sub ?a1"
  have lx: "length (X a) = n_obs a" using assms by (rule shape_inv_X_length)
  have a1: "shape_inv ?a1" using assms lx by (intro shape_inv_obs_update) simp_all
  have a2: "shape_inv ?a2" using a1 lx by (intro shape_inv_subset_obs) (simp_all add: n_obs_def)
  have n2: "n_obs ?a2 = count_true ?sub"
    using lx by (simp add: subset_obs_def n_obs_def length_select)
  have lens: "length (cell_divisors (select ?sub ?totals)) = n_obs ?a2"
    unfolding n2 length_cell_divisors by (rule length_select) simp
  have "wf_matrix (n_obs ?a2) (n_vars ?a2) (X ?a2)"
    using a2 by (simp only: shape_inv_def)
  from shape_inv_X_update[OF a2 wf_matrix_scale[OF this lens]] show ?thesis
    by (simp add: normalize_per_cell_def Let_def)
qed

lemma wf_matrix_full: "wf_matrix n m (np_full_nan n m)"
  by (simp add: wf_matrix_def np_full_nan_def list_all_iff)

lemma n_obs_set_layer: "n_obs (set_layer name L a) = n_obs a"
  by (simp add: set_layer_def n_obs_def)

lemma shape_inv_layer_setup:
  assumes "shape_inv a"
  shows "shape_inv (layer_setup a)"
proof -
  have "wf_matrix (n_obs a) (n_vars a) (X a)" using assms by (simp add: shape_inv_def)
  then have "shape_inv (set_layer ''counts'' (X a) a)"
    using assms by (intro shape_inv_set_layer)
  then have "shape_inv (normalize_per_cell (Fin 0) (set_layer ''counts'' (X a) a))"
    by (rule shape_inv_normalize)
  then show ?thesis
    unfolding layer_setup_def Let_def
    by (intro shape_inv_set_layer) (simp_all add: n_obs_set_layer n_vars_set_layer wf_matrix_full)
qed

lemma set_obs_pair_inv:
  assumes "shape_inv a" "length (snd arr) = n_obs a" "set_obs_pair c1 c2 arr a = Inr b"
  shows "shape_inv b \<and> n_obs b = n_obs a"
  using assms
  by (cases arr) (auto simp: set_obs_pair_def shape_inv_def n_obs_def n_vars_def split: if_splits)

lemma copy_program_time_inv:
  assumes "shape_inv a" "copy_program_time all_d role dst a = Inr b"
  shows "shape_inv b"
  using assms
  by (auto simp: copy_program_time_def ebind_Inr_iff lookup_Inr_iff shape_inv_def n_obs_def
      n_vars_def split: if_splits)

lemma shape_inv_base_store:
  assumes src: "shape_inv all_d" "obsm_inv all_d" and ok: "base_store all_d = Inr a"
  shows "shape_inv a"
proof -
  from ok obtain counts v dc umap inf2 pca where
    c: "layers all_d ''counts'' = Some counts" and d: "layers all_d ''decay_constants'' = Some dc"
    and u: "obsm all_d ''X_umap'' = Some umap" and p: "obsm all_d ''X_pca'' = Some pca"
    and s1: "set_obs_pair ''UMAP_1'' ''UMAP_2'' umap
        (set_layer ''decay_constants'' dc
          \<lparr>obs_names = obs_names all_d, var_names = var_names all_d, X = counts,
           layers = Map.empty, obs = obs all_d, var = v, obsm = Map.empty,
           uns_programs = None\<rparr>) = Inr inf2"
    and s2: "set_obs_pair ''PCA_1'' ''PCA_2'' pca inf2 = Inr a"
    by (auto simp: base_store_def Let_def ebind_Inr_iff lookup_Inr_iff)
  let ?inf1 = "set_layer ''decay_constants'' dc
          \<lparr>obs_names = obs_names all_d, var_names = var_names all_d, X = counts,
           layers = Map.empty, obs = obs all_d, var = v, obsm = Map.empty,
           uns_programs = None\<rparr>"
  have n1: "n_obs ?inf1 = n_obs all_d"
    by (simp add: set_layer_def n_obs_def)
  have i1: "shape_inv ?inf1"
    using src(1) c d by (simp add: shape_inv_def set_layer_def n_obs_def n_vars_def)
  have lu: "length (snd umap) = n_obs all_d" "length (snd pca) = n_obs all_d"
    using src(2) u p by (cases umap; cases pca; simp add: obsm_inv_def)+
  from set_obs_pair_inv[OF i1 _ s1] lu n1 have i2: "shape_inv inf2" "n_obs inf2 = n_obs all_d"
    by simp_all
  from set_obs_pair_inv[OF i2(1) _ s2] lu i2(2) show ?thesis by simp
qed

lemma shape_inv_base_construction:
  assumes "shape_inv all_d" "obsm_inv all_d" "base_construction all_d = Inr a"
  shows "shape_inv a"
proof -
  from assms(3) obtain inf3 inf4 where "base_store all_d = Inr inf3"
    "copy_program_time all_d ''rapa_program'' ''program_rapa_time'' inf3 = Inr inf4"
    "copy_program_time all_d ''cell_cycle_program'' ''program_cc_time'' inf4 = Inr a"
    by (auto simp: base_construction_def ebind_Inr_iff)
  then show ?thesis
    using shape_inv_base_store[OF assms(1,2)] copy_program_time_inv by blast
qed

lemma list_all_put_rows:
  "list_all P A \<Longrightarrow> list_all P v \<Longrightarrow> list_all P (put_rows bs A v)"
  by (induction bs A v rule: put_rows.induct) simp_all

lemma broadcast_rows_width:
  assumes "np_broadcast_to (k, m) (n, c) v = Inr v'" "wf_matrix n c v"
  shows "list_all (\<lambda>row. length row = m) v'"
proof -
  let ?rows = "if n = k then v else replicate k (hd v)"
  have "hd v \<in> set v" if "n = 1"
    using that assms(2) by (cases v) (simp_all add: wf_matrix_def)
  then have rows: "list_all (\<lambda>row. length row = c) ?rows"
    using assms by (auto simp: np_broadcast_to_def wf_matrix_def list_all_iff split: if_splits)
  have "v' = map (\<lambda>row. if c = m then row else replicate m (hd row)) ?rows"
    using assms(1) by (auto simp: np_broadcast_to_def split: if_splits)
  then show ?thesis using rows by (auto simp: list_all_iff)
qed

lemma list_all_as_float32:
  "list_all (\<lambda>row. length row = m) V \<Longrightarrow> list_all (\<lambda>row. length row = m) (as_float32 V)"
  by (simp add: as_float32_def list_all_iff)

lemma wf_matrix_put_rows:
  assumes "wf_matrix n m L" "np_broadcast_to (k, m) (n', c) v = Inr v'" "wf_matrix n' c v"
  shows "wf_matrix n m (put_rows bs L (as_float32 v'))"
  using assms(1) list_all_as_float32[OF broadcast_rows_width[OF assms(2,3)]]
  by (simp add: wf_matrix_def length_put_rows list_all_put_rows)

lemma shape_inv_merge_expt:
  assumes inv: "shape_inv a" and prod: "products_ok data" and ok: "merge_expt data a k = Inr b"
  shows "shape_inv b"
  using ok
proof (rule merge_exptE)
  fix dd dn :: anndata and rv cv Ld Lr Lc vd vr vc
  let ?idx = "isin (obs_names a) (obs_names dd)"
  assume h: "decay_data data k = Inr dd" "denoised_data data k = Inr dn"
    "layers dd ''rapamycin_velocity'' = Some rv" "layers dd ''cell_cycle_velocity'' = Some cv"
    "layers a ''denoised'' = Some Ld" "layers a ''rapamycin_velocity'' = Some Lr"
    "layers a ''cell_cycle_velocity'' = Some Lc"
    "np_broadcast_to (count_true ?idx, n_vars a) (shape dn) (X dn) = Inr vd"
    "np_broadcast_to (count_true ?idx, n_vars a) (shape dd) rv = Inr vr"
    "np_broadcast_to (count_true ?idx, n_vars a) (shape dd) cv = Inr vc"
    and b: "b = a\<lparr>layers := (layers a)
           (''denoised'' \<mapsto> put_rows ?idx Ld (as_float32 vd),
            ''rapamycin_velocity'' \<mapsto> put_rows ?idx Lr (as_float32 vr),
            ''cell_cycle_velocity'' \<mapsto> put_rows ?idx Lc (as_float32 vc))\<rparr>"
  have pdd: "shape_inv dd" and pdn: "shape_inv dn"
    using prod h(1,2) by (auto simp: products_ok_def)
  have wL: "wf_matrix (n_obs a) (n_vars a) Ld" "wf_matrix (n_obs a) (n_vars a) Lr"
    "wf_matrix (n_obs a) (n_vars a) Lc"
    using inv h(5,6,7) by (simp_all add: shape_inv_def)
  have wv: "wf_matrix (n_obs dn) (n_vars dn) (X dn)" "wf_matrix (n_obs dd) (n_vars dd) rv"
    "wf_matrix (n_obs dd) (n_vars dd) cv"
    using pdd pdn h(3,4) by (simp_all add: shape_inv_def)
  have w1: "wf_matrix (n_obs a) (n_vars a) (put_rows ?idx Ld (as_float32 vd))"
    using wf_matrix_put_rows[OF wL(1) h(8)[unfolded shape_def] wv(1)] .
  have w2: "wf_matrix (n_obs a) (n_vars a) (put_rows ?idx Lr (as_float32 vr))"
    using wf_matrix_put_rows[OF wL(2) h(9)[unfolded shape_def] wv(2)] .
  have w3: "wf_matrix (n_obs a) (n_vars a) (put_rows ?idx Lc (as_float32 vc))"
    using wf_matrix_put_rows[OF wL(3) h(10)[unfolded shape_def] wv(3)] .
  show ?thesis
    using inv w1 w2 w3 unfolding b by (simp add: shape_inv_def n_obs_def n_vars_def)
qed

lemma shape_inv_merge_loop:
  "shape_inv a \<Longrightarrow> products_ok data \<Longrightarrow> merge_loop data ks a = Inr b \<Longrightarrow> shape_inv b"
proof (induction ks arbitrary: a)
  case Nil
  then show ?case by simp
next
  case (Cons k ks)
  from Cons.prems(3) obtain a' where step: "merge_expt data a k = Inr a'"
    and rest: "merge_loop data ks a' = Inr b"
    by (auto simp: ebind_Inr_iff)
  from shape_inv_merge_expt[OF Cons.prems(1,2) step] Cons.IH[OF _ Cons.prems(2) rest]
  show ?case by simp
qed

lemma shape_inv_wt_filter:
  assumes "shape_inv a" "wt_filter a = Inr b"
  shows "shape_inv b"
proof -
  from assms(2) obtain g where g: "obs a ''Gene'' = Some g"
    and b: "b = subset_obs (map (\<lambda>c. c = S ''WT'') g) a"
    by (auto simp: wt_filter_def ebind_Inr_iff lookup_Inr_iff)
  have "length g = n_obs a" using assms(1) g by (simp add: shape_inv_def)
  then show ?thesis unfolding b by (intro shape_inv_subset_obs[OF assms(1)]) simp
qed

lemma wf_matrix_map2:
  assumes "wf_matrix n m A" "wf_matrix n m B"
  shows "wf_matrix n m (map2 (map2 f) A B)"
proof -
  have "length a = m \<and> length b = m" if "(a, b) \<in> set (zip A B)" for a b
    using that assms set_zip_leftD[OF that] set_zip_rightD[OF that]
    by (simp add: wf_matrix_def list_all_iff)
  then show ?thesis
    using assms by (auto simp: wf_matrix_def list_all_iff)
qed

lemma add_transcription_Inr:
  assumes "add_transcription vel out a = Inr b" "out \<noteq> ''decay_constants''" "out \<noteq> ''denoised''"
  obtains v dc dn where "layers a vel = Some v" "layers a ''decay_constants'' = Some dc"
    "layers a ''denoised'' = Some dn" "b = set_layer out (mat_add v (mat_mul dc dn)) a"
  using assms
  by (auto simp: add_transcription_def Let_def ebind_Inr_iff lookup_Inr_iff set_layer_def)

lemma shape_inv_add_transcription:
  assumes "shape_inv a" "add_transcription vel out a = Inr b"
    "out \<noteq> ''decay_constants''" "out \<noteq> ''denoised''"
  shows "shape_inv b"
  using assms(2,3,4)
proof (rule add_transcription_Inr)
  fix v dc dn
  assume h: "layers a vel = Some v" "layers a ''decay_constants'' = Some dc"
    "layers a ''denoised'' = Some dn" "b = set_layer out (mat_add v (mat_mul dc dn)) a"
  have w: "wf_matrix (n_obs a) (n_vars a) v" "wf_matrix (n_obs a) (n_vars a) dc"
    "wf_matrix (n_obs a) (n_vars a) dn"
    using assms(1) h by (simp_all add: shape_inv_def)
  have "wf_matrix (n_obs a) (n_vars a) (mat_add v (mat_mul dc dn))"
    unfolding mat_add_def mat_mul_def by (intro wf_matrix_map2 w)
  then show ?thesis unfolding h(4) by (rule shape_inv_set_layer[OF assms(1)])
qed

lemma wf_matrix_select_cols:
  assumes "wf_matrix n m A" "length bs \<le> m"
  shows "wf_matrix n (count_true bs) (map (select bs) A)"
  using assms by (auto simp: wf_matrix_def list_all_iff length_select)

lemma shape_inv_subset_var:
  assumes "shape_inv a" "length bs \<le> n_vars a"
  shows "shape_inv (subset_var bs a)"
proof -
  have n: "n_obs (subset_var bs a) = n_obs a" "n_vars (subset_var bs a) = count_true bs"
    using assms(2) by (simp_all add: subset_var_def n_obs_def n_vars_def length_select)
  have x: "wf_matrix (n_obs a) (count_true bs) (X (subset_var bs a))"
    using assms by (auto simp: subset_var_def shape_inv_def intro!: wf_matrix_select_cols)
  have l: "wf_matrix (n_obs a) (count_true bs) L" if "layers (subset_var bs a) name = Some L"
    for name L
  proof -
    from that obtain L0 where "layers a name = Some L0" "L = map (select bs) L0"
      by (auto simp: subset_var_def)
    then show ?thesis using assms by (auto simp: shape_inv_def intro!: wf_matrix_select_cols)
  qed
  have c: "length col = n_obs a" if "obs (subset_var bs a) k = Some col" for k col
    using that assms(1) by (simp add: subset_var_def shape_inv_def)
  show ?thesis unfolding shape_inv_def n using x l c by blast
qed

lemma shape_inv_trim: "shape_inv a \<Longrightarrow> shape_inv (trim a)"
  by (simp add: trim_def shape_inv_subset_var length_has_expression)

text \<open>
  Claim C4. The source object and the products of the loaders are \<^verbatim>\<open>AnnData\<close> objects
  and so have the invariant. Then every store that the pipeline constructs has it: the
  base store, the store after the layer set-up, the store after any number of merge steps,
  the cohort-filtered store, the stores with one and with two transcription layers, and the
  trimmed store. In each, every layer has the shape of the primary matrix and every column
  of the observation table has one entry per row.
\<close>

theorem shape_invariant:
  assumes "shape_inv (all_data data)" "obsm_inv (all_data data)" "products_ok data"
  shows "\<forall>a. base_construction (all_data data) = Inr a \<longrightarrow>
           shape_inv a \<and> shape_inv (layer_setup a) \<and>
           (\<forall>ks b. merge_loop data ks (layer_setup a) = Inr b \<longrightarrow>
              shape_inv b \<and>
              (\<forall>c. wt_filter b = Inr c \<longrightarrow>
                 shape_inv c \<and>
                 (\<forall>d. add_transcription ''rapamycin_velocity'' ''rapamycin_transcription'' c = Inr d \<longrightarrow>
                    shape_inv d \<and>
                    (\<forall>e. add_transcription ''cell_cycle_velocity'' ''cell_cycle_transcription'' d = Inr e \<longrightarrow>
                       shape_inv e \<and> shape_inv (trim e)))))"
proof (intro allI impI conjI)
  fix a
  assume a: "base_construction (all_data data) = Inr a"
  show inv_a: "shape_inv a"
    using shape_inv_base_construction[OF assms(1,2) a] .
  show inv_s: "shape_inv (layer_setup a)"
    using inv_a by (rule shape_inv_layer_setup)
  fix ks b
  assume b: "merge_loop data ks (layer_setup a) = Inr b"
  show inv_b: "shape_inv b"
    using shape_inv_merge_loop[OF inv_s assms(3) b] .
  fix c
  assume c: "wt_filter b = Inr c"
  show inv_c: "shape_inv c"
    using shape_inv_wt_filter[OF inv_b c] .
  fix d
  assume d: "add_transcription ''rapamycin_velocity'' ''rapamycin_transcription'' c = Inr d"
  show inv_d: "shape_inv d"
    using shape_inv_add_transcription[OF inv_c d] by simp
  fix e
  assume e: "add_transcription ''cell_cycle_velocity'' ''cell_cycle_transcription'' d = Inr e"
  show inv_e: "shape_inv e"
    using shape_inv_add_transcription[OF inv_d e] by simp
  show "shape_inv (trim e)"
    using inv_e by (rule shape_inv_trim)
qed

lemma small_source_inv: "shape_inv small_source" "obsm_inv small_source"
  by (auto simp: shape_inv_def obsm_inv_def small_source_def wf_matrix_def n_obs_def n_vars_def
      split: if_splits)

lemma small_products_ok: "products_ok small_data"
proof -
  have "shape_inv small_decay" "shape_inv small_denoised"
    unfolding small_decay_def small_denoised_def
    by (rule shape_inv_small_product; simp)+
  then show ?thesis by (simp add: products_ok_def small_data_def)
qed

theorem shape_invariant_witness:
  "shape_inv (all_data small_data) \<and> obsm_inv (all_data small_data) \<and> products_ok small_data \<and>
   base_construction (all_data small_data) = Inr small_base \<and>
   merge_loop small_data (expts small_data) (layer_setup small_base) = Inr small_b \<and>
   wt_filter small_b = Inr small_c \<and>
   add_transcription ''rapamycin_velocity'' ''rapamycin_transcription'' small_c = Inr small_d \<and>
   add_transcription ''cell_cycle_velocity'' ''cell_cycle_transcription'' small_d = Inr small_e \<and>
   shape_inv small_base \<and> shape_inv (layer_setup small_base) \<and> shape_inv small_b \<and>
   shape_inv small_c \<and> shape_inv small_d \<and> shape_inv small_e \<and> shape_inv (trim small_e)"
proof -
  have src: "shape_inv (all_data small_data)" "obsm_inv (all_data small_data)"
    using small_source_inv by (simp_all add: small_data_def)
  from shape_invariant[OF src small_products_ok] small_stages src small_products_ok
  show ?thesis by blast
qed

section \<open>The derived transcription layers\<close>





















section \<open>The pseudotime columns\<close>

text \<open>
  Claim C7. Step 1 reads the column \<open>program_<X>_time\<close>, where \<open>X\<close> is the program
  identifier that the attribute map gives for the role. Where the attribute map names a
  rapamycin program, or a cell-cycle program, that has no column in the source, the lookup
  raises the \<^verbatim>\<open>KeyError\<close> of that column and the pipeline fails with it, as the
  specification says. The second lookup, however, reads the table to which the first has
  just written \<^verbatim>\<open>program_rapa_time\<close>: with the cell-cycle program named \<open>rapa\<close> and no
  column \<^verbatim>\<open>program_rapa_time\<close> in the source, Step 1 does not fail, and
  \<^verbatim>\<open>program_cc_time\<close> receives the pseudotime of the rapamycin program.
\<close>

theorem pseudotime_alias_evaluation:
  "uns_programs alias_source = Some [''rapa_program'' \<mapsto> ''0'', ''cell_cycle_program'' \<mapsto> ''rapa''] \<and>
   obs alias_source (''program_'' @ ''rapa'' @ ''_time'') = None \<and>
   obs alias_source ''program_0_time'' = Some [F (Fin 1), F (Fin 2), F (Fin 3)] \<and>
   \<not> isl (base_construction alias_source) \<and>
   obs (projr (base_construction alias_source)) ''program_cc_time'' =
     Some [F (Fin 1), F (Fin 2), F (Fin 3)] \<and>
   obs missing_source ''program_9_time'' = None \<and>
   isl (base_construction missing_source) \<and>
   projl (base_construction missing_source) = KeyError ''program_9_time'' \<and>
   obs missing_cc_source ''program_8_time'' = None \<and>
   isl (base_construction missing_cc_source) \<and>
   projl (base_construction missing_cc_source) = KeyError ''program_8_time''"
proof -
  have a: "\<not> isl (base_construction alias_source)"
    by code_simp
  have b: "obs (projr (base_construction alias_source)) ''program_cc_time'' =
     Some [F (Fin 1), F (Fin 2), F (Fin 3)]"
    by code_simp
  have c: "isl (base_construction missing_source)"
    "projl (base_construction missing_source) = KeyError ''program_9_time''"
    by code_simp+
  have d: "isl (base_construction missing_cc_source)"
    "projl (base_construction missing_cc_source) = KeyError ''program_8_time''"
    by code_simp+
  show ?thesis
    using a b c d
    by (simp add: alias_source_def missing_source_def missing_cc_source_def small_source_def)
qed

section \<open>The normalisation\<close>

lemma is_count_cases: "is_count x \<Longrightarrow> \<exists>q\<ge>0. x = Fin q"
  by (cases x) simp_all

lemma foldl_fadd_count:
  "list_all is_count xs \<Longrightarrow> 0 \<le> a \<Longrightarrow>
   \<exists>q. foldl fadd (Fin a) xs = Fin q \<and> a \<le> q \<and> (q = a \<longrightarrow> list_all (\<lambda>x. x = Fin 0) xs)"
proof (induction xs arbitrary: a)
  case Nil
  then show ?case by simp
next
  case (Cons x xs)
  from Cons.prems(1) obtain b where b: "x = Fin b" "0 \<le> b"
    using is_count_cases[of x] by auto
  from Cons.prems have "list_all is_count xs" "0 \<le> a + b" using b by simp_all
  from Cons.IH[OF this] obtain q where
    q: "foldl fadd (Fin (a + b)) xs = Fin q" "a + b \<le> q"
       "q = a + b \<longrightarrow> list_all (\<lambda>x. x = Fin 0) xs"
    by blast
  show ?case
    using q b by (intro exI[where x = q]) auto
qed

lemma fsum_count: "list_all is_count xs \<Longrightarrow> is_count (fsum xs)"
  using foldl_fadd_count[of xs 0] by (auto simp: fsum_def)

lemma fsum_zero_cells:
  "list_all is_count xs \<Longrightarrow> fsum xs = Fin 0 \<Longrightarrow> list_all (\<lambda>x. x = Fin 0) xs"
  using foldl_fadd_count[of xs 0] by (auto simp: fsum_def)

lemma totals_count:
  "list_all (list_all is_count) A \<Longrightarrow> list_all is_count (map fsum A)"
  by (simp add: list_all_iff fsum_count)

lemma fge_zero_count: "is_count t \<Longrightarrow> fge t (Fin 0)"
  by (cases t) (simp_all add: fge_def)

lemma select_all_true:
  "list_all id bs \<Longrightarrow> length bs = length xs \<Longrightarrow> select bs xs = xs"
  by (induction bs xs rule: select.induct) simp_all

lemma cell_subset_all:
  "list_all (list_all is_count) A \<Longrightarrow> list_all id (map (\<lambda>t. fge t (Fin 0)) (map fsum A))"
  by (simp add: list_all_iff fsum_count fge_zero_count)

lemma X_normalize_counts:
  assumes "list_all (list_all is_count) (X s)"
  shows "X (normalize_per_cell (Fin 0) s) = map2 scale_row (cell_divisors (map fsum (X s))) (X s)"
proof -
  let ?sub = "map (\<lambda>t. fge t (Fin 0)) (map fsum (X s))"
  have "select ?sub (map fsum (X s)) = map fsum (X s)" "select ?sub (X s) = X s"
    using cell_subset_all[OF assms] by (simp_all add: select_all_true)
  then show ?thesis
    by (simp add: normalize_per_cell_def Let_def subset_obs_def)
qed

lemma scale_row_zero: "list_all (\<lambda>x. x = Fin 0) row \<Longrightarrow> scale_row d row = row"
  by (simp add: scale_row_def list_all_iff map_idI)

lemma set_finsert: "set (finsert x ys) = insert x (set ys)"
  by (induction ys) auto

lemma length_finsert: "length (finsert x ys) = Suc (length ys)"
  by (induction ys) auto

lemma fsort_props: "set (fsort xs) = set xs \<and> length (fsort xs) = length xs"
  by (induction xs) (simp_all add: fsort_def set_finsert length_finsert)

lemma is_count_fin: "is_count x \<Longrightarrow> isfin x"
  by (cases x) simp_all

lemma isfin_not_nan: "isfin x \<Longrightarrow> \<not> isnan x"
  by (cases x) simp_all

lemma np_median_fin:
  assumes "xs \<noteq> []" "list_all isfin xs"
  shows "isfin (np_median xs)"
proof -
  let ?s = "fsort xs" and ?n = "length xs"
  have n: "0 < ?n" using assms(1) by simp
  have nn: "\<not> list_ex isnan xs"
    using assms(2) by (auto simp: list_ex_iff list_all_iff isfin_not_nan)
  have el: "isfin (?s ! k)" if "k < ?n" for k
  proof -
    have "?s ! k \<in> set xs" using that fsort_props[of xs] by (metis nth_mem)
    then show ?thesis using assms(2) by (simp add: list_all_iff)
  qed
  have fin2: "isfin (fdiv (fadd a b) (Fin 2))" if "isfin a" "isfin b" for a b
    using that by (cases a; cases b) simp_all
  have k: "?n div 2 < ?n" "?n div 2 - 1 < ?n"
    using n by arith+
  have "isfin (?s ! (?n div 2))" "isfin (?s ! (?n div 2 - 1))"
    using el[OF k(1)] el[OF k(2)] by simp_all
  then show ?thesis
    using assms(1) nn by (simp add: np_median_def Let_def fin2)
qed

lemma divisor_zero_total:
  assumes "list_all is_count ts" "r < length ts" "ts ! r = Fin 0"
  shows "cell_divisors ts ! r \<noteq> Fin 0 \<and> \<not> isnan (cell_divisors ts ! r)"
proof -
  have "isfin (np_median ts)"
    using assms(1,2) by (intro np_median_fin) (auto simp: list_all_iff is_count_fin)
  then obtain m where m: "np_median ts = Fin m" by (cases "np_median ts") simp_all
  have "cell_divisors ts ! r = fdiv (Fin 1) (Fin m)"
    using assms(2,3) by (simp add: cell_divisors_def Let_def m feq_def)
  then show ?thesis by (simp add: inf_of_sign_def)
qed

text \<open>
  Claim C5. The primary matrix at Step 3 is the matrix of raw counts: its cells are finite
  and not negative. A row whose total is zero then passes through the normalisation
  unchanged and holds no not-a-number, and the divisor that the normalisation computes for
  the row is neither zero nor not-a-number (the zero total is replaced by one before it is
  divided by the median total).
\<close>

theorem zero_total_row_kept:
  assumes "list_all (list_all is_count) (X a)" "r < length (X a)" "fsum (X a ! r) = Fin 0"
  shows "X (layer_setup a) ! r = X a ! r \<and>
         list_all (\<lambda>x. \<not> isnan x) (X (layer_setup a) ! r) \<and>
         cell_divisors (map fsum (X a)) ! r \<noteq> Fin 0 \<and>
         \<not> isnan (cell_divisors (map fsum (X a)) ! r)"
proof -
  let ?s = "set_layer ''counts'' (X a) a"
  have xs: "X ?s = X a" by (simp add: set_layer_def)
  have x: "X (layer_setup a) = map2 scale_row (cell_divisors (map fsum (X a))) (X a)"
    using X_normalize_counts[of ?s] assms(1)
    by (simp add: layer_setup_def Let_def xs set_layer_def)
  have row: "list_all is_count (X a ! r)"
    using assms(1,2) by (simp add: list_all_length)
  then have zero: "list_all (\<lambda>x. x = Fin 0) (X a ! r)"
    using assms(3) by (rule fsum_zero_cells)
  have "X (layer_setup a) ! r = scale_row (cell_divisors (map fsum (X a)) ! r) (X a ! r)"
    using assms(2) by (simp add: x length_cell_divisors)
  then have keep: "X (layer_setup a) ! r = X a ! r"
    using zero by (simp add: scale_row_zero)
  have nonan: "list_all (\<lambda>x. \<not> isnan x) (X a ! r)"
    using zero by (auto simp: list_all_iff)
  have "cell_divisors (map fsum (X a)) ! r \<noteq> Fin 0 \<and>
        \<not> isnan (cell_divisors (map fsum (X a)) ! r)"
    using assms by (intro divisor_zero_total totals_count) simp_all
  then show ?thesis using keep nonan by simp
qed

lemma map_option_select_id:
  assumes "\<And>k v. m k = Some v \<Longrightarrow> length v = length bs" "list_all id bs"
  shows "map_option (select bs) \<circ> m = m"
proof
  fix k
  show "(map_option (select bs) \<circ> m) k = m k"
    using assms by (cases "m k") (simp_all add: select_all_true)
qed

text \<open>
  Claim C9, as the code has it. On a store with the shape invariant whose primary matrix
  holds counts, the normalisation with a zero minimum keeps every row: the observation
  names, the number of rows of the primary matrix, every layer, and the feature table are
  as before. The observation table keeps every column it had and gains the column
  \<^verbatim>\<open>n_counts\<close> with the row totals.
\<close>

theorem normalization_frame:
  assumes "shape_inv s" "list_all (list_all is_count) (X s)"
  shows "obs_names (normalize_per_cell (Fin 0) s) = obs_names s \<and>
         length (X (normalize_per_cell (Fin 0) s)) = length (X s) \<and>
         layers (normalize_per_cell (Fin 0) s) = layers s \<and>
         var_names (normalize_per_cell (Fin 0) s) = var_names s \<and>
         var (normalize_per_cell (Fin 0) s) = var s \<and>
         obs (normalize_per_cell (Fin 0) s) = (obs s)(''n_counts'' \<mapsto> map F (map fsum (X s))) \<and>
         (\<forall>c col. c \<noteq> ''n_counts'' \<and> obs s c = Some col \<longrightarrow>
            obs (normalize_per_cell (Fin 0) s) c = Some col)"
proof -
  let ?totals = "map fsum (X s)"
  let ?sub = "map (\<lambda>t. fge t (Fin 0)) ?totals"
  let ?o1 = "(obs s)(''n_counts'' \<mapsto> map F ?totals)"
  have all: "list_all id ?sub" using assms(2) by (rule cell_subset_all)
  have n: "length (X s) = length (obs_names s)"
    using assms(1) by (simp add: shape_inv_def wf_matrix_def n_obs_def)
  have len: "length ?sub = length (obs_names s)" using n by simp
  have names: "select ?sub (obs_names s) = obs_names s"
    using all len by (intro select_all_true) simp_all
  have lay: "map_option (select ?sub) \<circ> layers s = layers s"
    using assms(1) all len
    by (intro map_option_select_id) (auto simp: shape_inv_def wf_matrix_def n_obs_def)
  have ob: "map_option (select ?sub) \<circ> ?o1 = ?o1"
    using assms(1) all len n
    by (intro map_option_select_id) (auto simp: shape_inv_def n_obs_def split: if_splits)
  have x: "length (X (normalize_per_cell (Fin 0) s)) = length (X s)"
    using X_normalize_counts[OF assms(2)] by (simp add: length_cell_divisors)
  have rest: "obs_names (normalize_per_cell (Fin 0) s) = obs_names s"
    "layers (normalize_per_cell (Fin 0) s) = layers s"
    "var_names (normalize_per_cell (Fin 0) s) = var_names s"
    "var (normalize_per_cell (Fin 0) s) = var s"
    "obs (normalize_per_cell (Fin 0) s) = ?o1"
    using names lay ob by (simp_all add: normalize_per_cell_def Let_def subset_obs_def)
  show ?thesis using x rest by simp
qed

lemma small_store_inv: "shape_inv small_store"
  by (auto simp: shape_inv_def small_store_def wf_matrix_def n_obs_def n_vars_def
      split: if_splits)

theorem zero_total_row_kept_witness:
  "list_all (list_all is_count) (X zero_store) \<and> 0 < length (X zero_store) \<and>
   fsum (X zero_store ! 0) = Fin 0 \<and>
   X (layer_setup zero_store) ! 0 = [Fin 0] \<and>
   list_all (\<lambda>x. \<not> isnan x) (X (layer_setup zero_store) ! 0) \<and>
   cell_divisors (map fsum (X zero_store)) ! 0 = PInf"
proof -
  have x: "X zero_store = [[Fin 0], [Fin 0], [Fin 5]]"
    by (simp add: zero_store_def)
  have h: "list_all (list_all is_count) (X zero_store)" "0 < length (X zero_store)"
    "fsum (X zero_store ! 0) = Fin 0"
    by (simp_all add: x fsum_def)
  have d: "cell_divisors (map fsum (X zero_store)) ! 0 = PInf"
    by code_simp
  from zero_total_row_kept[OF h] h d show ?thesis by (simp add: x)
qed

theorem normalization_frame_witness:
  "shape_inv small_store \<and> list_all (list_all is_count) (X small_store) \<and>
   obs_names (normalize_per_cell (Fin 0) small_store) = [''c0'', ''c1'', ''c2''] \<and>
   length (X (normalize_per_cell (Fin 0) small_store)) = 3 \<and>
   layers (normalize_per_cell (Fin 0) small_store) = layers small_store \<and>
   var (normalize_per_cell (Fin 0) small_store) = var small_store \<and>
   obs (normalize_per_cell (Fin 0) small_store) ''Gene'' = Some [S ''WT'', S ''MUT'', S ''WT''] \<and>
   obs (normalize_per_cell (Fin 0) small_store) ''n_counts'' = Some [F (Fin 1), F (Fin 0), F (Fin 2)]"
proof -
  have c: "list_all (list_all is_count) (X small_store)"
    by (simp add: small_store_def)
  from normalization_frame[OF small_store_inv c] small_store_inv c
  show ?thesis by (simp add: small_store_def fsum_def)
qed

text \<open>
  Claim C9 as the specification states it fails for the observation table: the store has
  no column \<^verbatim>\<open>n_counts\<close> before the normalisation and has it after.
\<close>

theorem normalization_frame_counterexample:
  "shape_inv small_store \<and> list_all (list_all is_count) (X small_store) \<and>
   obs small_store ''n_counts'' = None \<and>
   obs (normalize_per_cell (Fin 0) small_store) ''n_counts'' =
     Some [F (Fin 1), F (Fin 0), F (Fin 2)] \<and>
   obs (layer_setup small_store) ''n_counts'' = Some [F (Fin 1), F (Fin 0), F (Fin 2)] \<and>
   obs (normalize_per_cell (Fin 0) small_store) \<noteq> obs small_store"
proof -
  have a: "obs small_store ''n_counts'' = None"
    "list_all (list_all is_count) (X small_store)"
    by (simp_all add: small_store_def)
  have b: "obs (normalize_per_cell (Fin 0) small_store) ''n_counts'' =
     Some [F (Fin 1), F (Fin 0), F (Fin 2)]"
    "obs (layer_setup small_store) ''n_counts'' = Some [F (Fin 1), F (Fin 0), F (Fin 2)]"
    by code_simp+
  have "obs (normalize_per_cell (Fin 0) small_store) \<noteq> obs small_store"
    using a(1) b(1) by (metis option.distinct(1))
  then show ?thesis using a b small_store_inv by simp
qed

end
